(* ===== verification/Prelude.thy ===== *)
theory Prelude
  imports Main "HOL-Library.Multiset" "HOL-Library.Word"
begin

text \<open>
  Shared vocabulary of the development: the type names of the model, the decimal printers
  the code uses (\<open>itoa\<close> and \<open>fmt.Sprintf\<close> with a decimal verb), the result type of
  handlers that may panic, the reachability relation with the locales that carry invariants
  and simulations along it, and the lemmas on lists and maps that several components share.
\<close>

section \<open>Type names\<close>

text \<open>
  Clock readings are arguments of the operations. \<open>unix\<close> is a count of seconds
  (\<open>time.Now().Unix()\<close>), \<open>instant\<close> and \<open>duration\<close> count nanoseconds
  (\<open>time.Time\<close>, \<open>time.Duration\<close>). A Go \<open>string\<close> is a list of bytes.
\<close>

type_synonym unix = int
type_synonym instant = int
type_synonym duration = int
type_synonym uuid = string

abbreviation seconds :: "int \<Rightarrow> duration" where
  "seconds n \<equiv> n * 1000000000"

section \<open>Decimal printing\<close>

text \<open>
  \<open>itoa\<close> occurs twice in the code, with the same body (\<open>internal/master/event_queue.go\<close>
  and \<open>internal/worker/runner.go\<close>): the digits are written from the end of a buffer of 20
  bytes; for a negative number the loop body never runs and the result is the empty string.
  The list accumulator is the written part of the buffer.
\<close>

definition digit_char :: "nat \<Rightarrow> char" where
  "digit_char d = char_of (48 + d)"

fun itoa_loop :: "nat \<Rightarrow> string \<Rightarrow> string" where
  "itoa_loop n acc = (if n = 0 then acc else itoa_loop (n div 10) (digit_char (n mod 10) # acc))"

declare itoa_loop.simps [simp del]

definition itoa :: "int \<Rightarrow> string" where
  "itoa n = (if n = 0 then ''0'' else itoa_loop (nat n) [])"

text \<open>\<open>fmt.Sprintf\<close> of an integer with the decimal verb.\<close>

definition fmt_d :: "int \<Rightarrow> string" where
  "fmt_d n = (if n < 0 then ''-'' @ itoa (- n) else itoa n)"

text \<open>Reading a string of decimal digits back.\<close>

definition is_digit :: "char \<Rightarrow> bool" where
  "is_digit c \<longleftrightarrow> 48 \<le> (of_char c :: nat) \<and> (of_char c :: nat) \<le> 57"

definition digit_val :: "char \<Rightarrow> nat" where
  "digit_val c = of_char c - 48"

definition dec_val :: "string \<Rightarrow> nat" where
  "dec_val s = foldl (\<lambda>v c. 10 * v + digit_val c) 0 s"

lemma digit_char_simps [simp]:
  "digit_char 0 = CHR ''0''" "digit_char (Suc 0) = CHR ''1''" "digit_char 1 = CHR ''1''"
  "digit_char 2 = CHR ''2''" "digit_char 3 = CHR ''3''" "digit_char 4 = CHR ''4''"
  "digit_char 5 = CHR ''5''" "digit_char 6 = CHR ''6''" "digit_char 7 = CHR ''7''"
  "digit_char 8 = CHR ''8''" "digit_char 9 = CHR ''9''"
  by (simp_all add: digit_char_def char_of_def bit_0)

lemma of_char_digit_char: "d < 10 \<Longrightarrow> of_char (digit_char d) = 48 + d"
  by (simp add: digit_char_def)

lemma is_digit_digit_char [simp]: "d < 10 \<Longrightarrow> is_digit (digit_char d)"
  by (simp add: is_digit_def of_char_digit_char)

lemma digit_val_digit_char [simp]: "d < 10 \<Longrightarrow> digit_val (digit_char d) = d"
  by (simp add: digit_val_def of_char_digit_char)

lemma itoa_loop_0 [simp]: "itoa_loop 0 acc = acc"
  by (subst itoa_loop.simps) simp

lemma itoa_loop_append: "itoa_loop n acc = itoa_loop n [] @ acc"
proof (induction n arbitrary: acc rule: less_induct)
  case (less n)
  show ?case
  proof (cases "n = 0")
    case False
    let ?c = "digit_char (n mod 10)"
    have unf: "itoa_loop n xs = itoa_loop (n div 10) (?c # xs)" for xs
      using False by (subst itoa_loop.simps) simp
    have IH: "itoa_loop (n div 10) xs = itoa_loop (n div 10) [] @ xs" for xs
      using False by (intro less.IH) simp
    show ?thesis using unf [of acc] unf [of "[]"] IH [of "?c # acc"] IH [of "[?c]"] by simp
  qed simp
qed

lemma itoa_loop_step: "0 < n \<Longrightarrow> itoa_loop n [] = itoa_loop (n div 10) [] @ [digit_char (n mod 10)]"
  by (metis itoa_loop.simps itoa_loop_append not_gr_zero)

lemma itoa_loop_digits: "\<forall>c \<in> set (itoa_loop n []). is_digit c"
proof (induction n rule: less_induct)
  case (less n)
  show ?case
  proof (cases "n = 0")
    case False
    then show ?thesis using less.IH [of "n div 10"] by (simp add: itoa_loop_step)
  qed simp
qed

lemma dec_val_append_digit: "dec_val (s @ [c]) = 10 * dec_val s + digit_val c"
  by (simp add: dec_val_def)

lemma dec_val_itoa_loop: "dec_val (itoa_loop n []) = n"
proof (induction n rule: less_induct)
  case (less n)
  show ?case
  proof (cases "n = 0")
    case False
    then show ?thesis
      using less.IH [of "n div 10"] by (simp add: itoa_loop_step dec_val_append_digit)
  qed (simp add: dec_val_def)
qed

lemma itoa_loop_nonempty: "0 < n \<Longrightarrow> itoa_loop n [] \<noteq> []"
  by (simp add: itoa_loop_step)

lemma itoa_loop_length: "n < 10 ^ k \<Longrightarrow> length (itoa_loop n []) \<le> k"
proof (induction k arbitrary: n)
  case (Suc k)
  show ?case
  proof (cases "n = 0")
    case False
    moreover have "n div 10 < 10 ^ k" using Suc.prems by (simp add: less_mult_imp_div_less)
    ultimately show ?thesis using Suc.IH by (simp add: itoa_loop_step)
  qed simp
qed simp

lemma itoa_nonneg_digits: "c \<in> set (itoa n) \<Longrightarrow> is_digit c"
  using itoa_loop_digits by (auto simp: itoa_def is_digit_def split: if_splits)

lemma dec_val_itoa: "0 \<le> n \<Longrightarrow> dec_val (itoa n) = nat n"
  by (simp add: itoa_def dec_val_itoa_loop) (simp add: dec_val_def digit_val_def)

lemma itoa_nonempty: "0 \<le> n \<Longrightarrow> itoa n \<noteq> []"
  by (simp add: itoa_def itoa_loop_nonempty)

lemma itoa_negative: "n < 0 \<Longrightarrow> itoa n = []"
  by (simp add: itoa_def)

text \<open>The 20-byte buffer is never overrun: a 64-bit integer prints in at most 19 digits.\<close>

lemma itoa_length: "n < 2 ^ 63 \<Longrightarrow> length (itoa n) \<le> 19"
proof -
  assume "n < 2 ^ 63"
  then have "nat n < 10 ^ 19" by simp
  then show ?thesis by (auto simp: itoa_def intro: itoa_loop_length)
qed

lemma itoa_inj: "0 \<le> m \<Longrightarrow> 0 \<le> n \<Longrightarrow> itoa m = itoa n \<longleftrightarrow> m = n"
  by (metis dec_val_itoa int_nat_eq)

lemma fmt_d_nonneg: "0 \<le> n \<Longrightarrow> fmt_d n = itoa n"
  by (simp add: fmt_d_def)

lemma fmt_d_inj_nonneg: "0 \<le> m \<Longrightarrow> 0 \<le> n \<Longrightarrow> fmt_d m = fmt_d n \<longleftrightarrow> m = n"
  by (simp add: fmt_d_nonneg itoa_inj)

text \<open>An identifier made of a prefix, an underscore and a number determines its number.\<close>

lemma underscore_not_digit [simp]: "\<not> is_digit (CHR ''_'')"
  by (simp add: is_digit_def)

lemma suffix_id_inj:
  assumes "0 \<le> m" "0 \<le> n" "p @ ''_'' @ itoa m = q @ ''_'' @ itoa n"
  shows "p = q \<and> m = n"
proof -
  let ?P = "\<lambda>c. c \<noteq> CHR ''_''"
  have d: "\<forall>c \<in> set (rev (itoa k)). ?P c" for k
    using itoa_nonneg_digits [of _ k] underscore_not_digit by fastforce
  have "takeWhile ?P (rev (p @ ''_'' @ itoa m)) = rev (itoa m)"
    and "takeWhile ?P (rev (q @ ''_'' @ itoa n)) = rev (itoa n)"
    using d by (simp_all add: takeWhile_append)
  then have "rev (itoa m) = rev (itoa n)" using assms(3) by metis
  then have "itoa m = itoa n" by simp
  then show ?thesis using assms by (simp add: itoa_inj)
qed

section \<open>Integer division\<close>

text \<open>Go's \<open>/\<close> on integers rounds towards zero.\<close>

definition go_div :: "int \<Rightarrow> int \<Rightarrow> int" where
  "go_div a b = sgn a * sgn b * (\<bar>a\<bar> div \<bar>b\<bar>)"

lemma go_div_nonneg: "0 \<le> a \<Longrightarrow> 0 < b \<Longrightarrow> go_div a b = a div b"
  by (cases "a = 0") (auto simp: go_div_def)

section \<open>Results of a handler\<close>

text \<open>
  A handler either returns, or panics with the state it had reached: a Go panic does not
  undo the assignments made before it.
\<close>

datatype 's outcome = Returns 's | Panics 's

fun final_state :: "'s outcome \<Rightarrow> 's" where
  "final_state (Returns s) = s"
| "final_state (Panics s) = s"

fun panics :: "'s outcome \<Rightarrow> bool" where
  "panics (Returns s) = False"
| "panics (Panics s) = True"

section \<open>Iterating over a Go map\<close>

text \<open>
  \<open>for _, v := range m\<close> visits every entry once, in an order the language leaves open.
  The order is an argument of the model: a list of keys that enumerates the domain.
\<close>

definition map_order :: "'k list \<Rightarrow> ('k \<rightharpoonup> 'v) \<Rightarrow> bool" where
  "map_order ks m \<longleftrightarrow> distinct ks \<and> set ks = dom m"

definition entries :: "'k list \<Rightarrow> ('k \<rightharpoonup> 'v) \<Rightarrow> 'v list" where
  "entries ks m = List.map_filter m ks"

lemma entries_Nil [simp]: "entries [] m = []"
  by (simp add: entries_def)

lemma entries_Cons: "entries (k # ks) m = (case m k of None \<Rightarrow> entries ks m | Some v \<Rightarrow> v # entries ks m)"
  by (simp add: entries_def map_filter_def split: option.split)

lemma set_entries: "set (entries ks m) = {v. \<exists>k \<in> set ks. m k = Some v}"
  by (induction ks) (auto simp: entries_Cons split: option.splits)

lemma length_entries: "set ks \<subseteq> dom m \<Longrightarrow> length (entries ks m) = length ks"
  by (induction ks) (auto simp: entries_Cons)

lemma map_orderD:
  assumes "map_order ks m"
  shows "distinct ks" "set ks = dom m" "finite (dom m)"
  using assms finite_set [of ks] by (auto simp: map_order_def)

lemma set_entries_order: "map_order ks m \<Longrightarrow> set (entries ks m) = ran m"
  by (auto simp: set_entries map_order_def ran_def dom_def)

lemma map_key_entries: "\<forall>k \<in> set ks. \<exists>v. m k = Some v \<and> f v = k \<Longrightarrow> map f (entries ks m) = ks"
  by (induction ks) (auto simp: entries_Cons)

text \<open>Indexing the values of a map by a field that repeats their keys gives the map back.\<close>

lemma map_of_entries:
  assumes "map_order ks m" "\<And>k v. m k = Some v \<Longrightarrow> key v = k"
  shows "map_of (rev (map (\<lambda>v. (key v, v)) (entries ks m))) = m"
proof
  fix k
  let ?l = "rev (map (\<lambda>v. (key v, v)) (entries ks m))"
  have "\<forall>k \<in> set ks. \<exists>v. m k = Some v \<and> key v = k"
    using assms(2) map_orderD(2) [OF assms(1)] by blast
  then have "map key (entries ks m) = ks" by (rule map_key_entries)
  then have "map fst ?l = rev ks" by (simp add: rev_map [symmetric] comp_def)
  then have d: "distinct (map fst ?l)" using map_orderD(1) [OF assms(1)] by simp
  have "map_of ?l k = Some v \<longleftrightarrow> m k = Some v" for v
    using assms(2) map_orderD(2) [OF assms(1)]
    by (auto simp: map_of_eq_Some_iff [OF d] set_entries image_iff) 
  then show "map_of ?l k = m k" by (metis not_Some_eq)
qed

section \<open>Reachability, invariants and simulations\<close>

inductive reach :: "('s \<Rightarrow> bool) \<Rightarrow> ('s \<Rightarrow> 's \<Rightarrow> bool) \<Rightarrow> 's \<Rightarrow> bool"
  for initial :: "'s \<Rightarrow> bool" and trans :: "'s \<Rightarrow> 's \<Rightarrow> bool" where
  reach_init: "initial s \<Longrightarrow> reach initial trans s"
| reach_step: "reach initial trans s \<Longrightarrow> trans s t \<Longrightarrow> reach initial trans t"

text \<open>
  The contract every component states for its operations: the initial states satisfy the
  invariant and every transition keeps it.
\<close>

locale machine_invariant =
  fixes initial :: "'s \<Rightarrow> bool"
    and trans :: "'s \<Rightarrow> 's \<Rightarrow> bool"
    and inv :: "'s \<Rightarrow> bool"
  assumes inv_initial: "initial s \<Longrightarrow> inv s"
    and inv_trans: "inv s \<Longrightarrow> trans s t \<Longrightarrow> inv t"
begin

lemma inv_reach: "reach initial trans s \<Longrightarrow> inv s"
  by (induction rule: reach.induct) (auto intro: inv_initial inv_trans)

end

text \<open>
  A component that also implements an abstract machine: every transition out of a state that
  satisfies the invariant either leaves the abstraction alone or is an abstract transition.
\<close>

locale machine_simulation = machine_invariant +
  fixes ainitial :: "'a \<Rightarrow> bool"
    and atrans :: "'a \<Rightarrow> 'a \<Rightarrow> bool"
    and abs :: "'s \<Rightarrow> 'a"
  assumes abs_initial: "initial s \<Longrightarrow> ainitial (abs s)"
    and abs_trans: "inv s \<Longrightarrow> trans s t \<Longrightarrow> abs t = abs s \<or> atrans (abs s) (abs t)"
begin

lemma abs_reach: "reach initial trans s \<Longrightarrow> reach ainitial atrans (abs s)"
proof (induction rule: reach.induct)
  case (reach_init s)
  then show ?case by (intro reach.reach_init abs_initial)
next
  case (reach_step s t)
  then show ?case
    using abs_trans [OF inv_reach] by (metis reach.reach_step)
qed

end

text \<open>A terminating relation has a final state among the good ones.\<close>

lemma runs_to_end:
  assumes "wf {(t, s). step s t}" "good s" "\<And>s t. good s \<Longrightarrow> step s t \<Longrightarrow> good t"
  shows "\<exists>s. good s \<and> (\<nexists>t. step s t)"
  using assms(1,2)
proof (induction s rule: wf_induct_rule)
  case (less s)
  then show ?case using assms(3) by (cases "\<exists>t. step s t") blast+
qed

section \<open>Lists\<close>

text \<open>The last \<open>n\<close> elements of a list: what a bounded queue keeps.\<close>

definition lastn :: "nat \<Rightarrow> 'a list \<Rightarrow> 'a list" where
  "lastn n xs = drop (length xs - n) xs"

lemma length_lastn [simp]: "length (lastn n xs) = min n (length xs)"
  by (simp add: lastn_def)

lemma lastn_all: "length xs \<le> n \<Longrightarrow> lastn n xs = xs"
  by (simp add: lastn_def)

lemma lastn_snoc_full: "length xs = n \<Longrightarrow> 0 < n \<Longrightarrow> lastn n (xs @ [x]) = tl xs @ [x]"
  by (cases xs) (simp_all add: lastn_def)

lemma lastn_lastn_snoc: "0 < n \<Longrightarrow> lastn n (lastn n xs @ [x]) = lastn n (xs @ [x])"
proof (cases "length xs \<le> n")
  case False
  assume "0 < n"
  with False have "lastn n (lastn n xs @ [x]) = drop 1 (lastn n xs) @ [x]"
    by (simp add: lastn_def [of n "lastn n xs @ [x]"] min_def Suc_diff_le)
  also have "\<dots> = lastn n (xs @ [x])"
    using False \<open>0 < n\<close> by (simp add: lastn_def Suc_diff_le)
  finally show ?thesis .
qed (simp add: lastn_all)

lemma set_lastn_subset: "set (lastn n xs) \<subseteq> set xs"
  by (simp add: lastn_def set_drop_subset)

end
