(* ===== verification/EventQueue.thy ===== *)
theory EventQueue
  imports Prelude
begin

text \<open>
  The queues of events for workers that are not connected
  (\<open>internal/master/event_queue.go\<close>): a bounded queue per worker, with increasing event
  numbers and expiry times, and the store of queues by worker UUID. \<open>time.Now()\<close> is the
  argument \<open>now\<close>; the mutexes make every operation one atomic step. The parameters of an
  event have the Go type \<open>any\<close>, here the type variable \<open>'p\<close>.
\<close>

section \<open>One queue\<close>

definition maxEventQueueSize :: nat where
  "maxEventQueueSize = 128"

definition defaultEventTTL :: duration where
  "defaultEventTTL = seconds (5 * 60)"

definition taskCancelEventTTL :: duration where
  "taskCancelEventTTL = seconds 30"

record 'p event =
  ev_id :: string
  ev_method :: string
  ev_params :: 'p
  ev_created_at :: instant
  ev_expires_at :: instant

record 'p event_queue =
  eq_events :: "'p event list"
  eq_next_id :: int

definition new_event_queue :: "'p event_queue" where
  "new_event_queue = \<lparr>eq_events = [], eq_next_id = 0\<rparr>"

definition push :: "instant \<Rightarrow> string \<Rightarrow> 'p \<Rightarrow> duration \<Rightarrow> 'p event_queue \<Rightarrow> 'p event_queue" where
  "push now method params ttl q =
     (let next = eq_next_id q + 1;
          evt = \<lparr>ev_id = method @ ''_'' @ itoa next, ev_method = method, ev_params = params,
                 ev_created_at = now, ev_expires_at = now + ttl\<rparr>;
          events = (if length (eq_events q) \<ge> maxEventQueueSize then tl (eq_events q)
                    else eq_events q)
      in \<lparr>eq_events = events @ [evt], eq_next_id = next\<rparr>)"

definition expired :: "instant \<Rightarrow> 'p event \<Rightarrow> bool" where
  "expired now e \<longleftrightarrow> now > ev_expires_at e"

definition pop_pending :: "instant \<Rightarrow> 'p event_queue \<Rightarrow> 'p event list \<times> 'p event_queue" where
  "pop_pending now q =
     (filter (\<lambda>e. \<not> expired now e) (eq_events q), q\<lparr>eq_events := []\<rparr>)"

definition ack :: "string list \<Rightarrow> 'p event_queue \<Rightarrow> 'p event_queue" where
  "ack ids q =
     (if ids = [] then q
      else q\<lparr>eq_events := filter (\<lambda>e. ev_id e \<notin> set ids) (eq_events q)\<rparr>)"

definition eq_len :: "'p event_queue \<Rightarrow> nat" where
  "eq_len q = length (eq_events q)"

section \<open>The store of queues\<close>

type_synonym 'p event_store = "uuid \<rightharpoonup> 'p event_queue"

definition get_or_create :: "uuid \<Rightarrow> 'p event_store \<Rightarrow> 'p event_queue \<times> 'p event_store" where
  "get_or_create u s =
     (case s u of
        Some q \<Rightarrow> (q, s)
      | None \<Rightarrow> (new_event_queue, s(u \<mapsto> new_event_queue)))"

definition remove :: "uuid \<Rightarrow> 'p event_store \<Rightarrow> 'p event_store" where
  "remove u s = s(u := None)"

text \<open>
  \<open>GetOrCreate\<close> returns a pointer to the queue in the map, so the push is seen by the
  store: the changed queue is written back.
\<close>

definition push_event ::
  "instant \<Rightarrow> uuid \<Rightarrow> string \<Rightarrow> 'p \<Rightarrow> duration \<Rightarrow> 'p event_store \<Rightarrow> 'p event_store" where
  "push_event now u method params ttl s =
     (let (q, s') = get_or_create u s in s'(u \<mapsto> push now method params ttl q))"

section \<open>The interface: a bounded log\<close>

text \<open>The items a sequence of puts appends, each built from the log it finds.\<close>

fun appended :: "('i \<Rightarrow> 'q \<Rightarrow> 'e) \<Rightarrow> ('i \<Rightarrow> 'q \<Rightarrow> 'q) \<Rightarrow> 'i list \<Rightarrow> 'q \<Rightarrow> 'e list" where
  "appended item put [] q = []"
| "appended item put (i # is) q = item i q # appended item put is (put i q)"

text \<open>
  What the scheduler relies on when it flushes the queue of a reconnecting worker: pushing
  appends and keeps the newest \<open>cap\<close> items, taking returns the live items in order and
  empties the log.
\<close>

locale bounded_log =
  fixes fresh :: "'q"
    and put :: "'i \<Rightarrow> 'q \<Rightarrow> 'q"
    and take_all :: "'t \<Rightarrow> 'q \<Rightarrow> 'e list \<times> 'q"
    and contents :: "'q \<Rightarrow> 'e list"
    and item :: "'i \<Rightarrow> 'q \<Rightarrow> 'e"
    and live :: "'t \<Rightarrow> 'e \<Rightarrow> bool"
    and cap :: nat
    and ok :: "'q \<Rightarrow> bool"
  assumes cap_pos: "0 < cap"
    and ok_fresh: "ok fresh"
    and ok_put: "ok q \<Longrightarrow> ok (put i q)"
    and ok_take: "ok q \<Longrightarrow> ok (snd (take_all t q))"
    and ok_bounded: "ok q \<Longrightarrow> length (contents q) \<le> cap"
    and contents_fresh: "contents fresh = []"
    and contents_put: "ok q \<Longrightarrow> contents (put i q) = lastn cap (contents q @ [item i q])"
    and take_live: "fst (take_all t q) = filter (live t) (contents q)"
    and take_empty: "contents (snd (take_all t q)) = []"
begin

lemma ok_puts: "ok q \<Longrightarrow> ok (fold put is q)"
  by (induction "is" arbitrary: q) (auto intro: ok_put)

lemma lastn_append_assoc: "0 < n \<Longrightarrow> lastn n (lastn n xs @ ys) = lastn n (xs @ ys)"
proof (induction ys rule: rev_induct)
  case Nil
  then show ?case by (simp add: lastn_all)
next
  case (snoc y ys)
  have "lastn n (lastn n xs @ ys @ [y]) = lastn n (lastn n (lastn n xs @ ys) @ [y])"
    using snoc.prems lastn_lastn_snoc [of n "lastn n xs @ ys" y] by simp
  also have "\<dots> = lastn n (xs @ ys @ [y])"
    using snoc lastn_lastn_snoc [of n "xs @ ys" y] by simp
  finally show ?case .
qed

lemma contents_puts: "ok q \<Longrightarrow> contents (fold put is q) = lastn cap (contents q @ appended item put is q)"
proof (induction "is" arbitrary: q)
  case Nil
  then show ?case by (simp add: lastn_all ok_bounded)
next
  case (Cons i "is")
  then show ?case
    using lastn_append_assoc [OF cap_pos, of "contents q @ [item i q]" "appended item put is (put i q)"]
    by (simp add: ok_put contents_put)
qed

lemma burst_then_take:
  "fst (take_all t (fold put is fresh)) = filter (live t) (lastn cap (appended item put is fresh))"
  by (simp add: take_live contents_puts ok_fresh contents_fresh)

lemma second_take: "fst (take_all t' (snd (take_all t q))) = []"
  by (simp add: take_live take_empty)

end

section \<open>The queue keeps its contract\<close>

text \<open>One push as a value: the clock, the method, the parameters and the time to live.\<close>

type_synonym 'p push_args = "instant \<times> string \<times> 'p \<times> duration"

fun push_args :: "'p push_args \<Rightarrow> 'p event_queue \<Rightarrow> 'p event_queue" where
  "push_args (now, method, params, ttl) q = push now method params ttl q"

fun pushed_event :: "'p push_args \<Rightarrow> 'p event_queue \<Rightarrow> 'p event" where
  "pushed_event (now, method, params, ttl) q =
     \<lparr>ev_id = method @ ''_'' @ itoa (eq_next_id q + 1), ev_method = method, ev_params = params,
      ev_created_at = now, ev_expires_at = now + ttl\<rparr>"

text \<open>
  The invariant: the queue is bounded and its events carry strictly increasing numbers, none
  above the counter.
\<close>

definition numbered :: "'p event \<Rightarrow> int \<Rightarrow> bool" where
  "numbered e n \<longleftrightarrow> ev_id e = ev_method e @ ''_'' @ itoa n"

definition eq_inv :: "'p event_queue \<Rightarrow> bool" where
  "eq_inv q \<longleftrightarrow> length (eq_events q) \<le> maxEventQueueSize \<and> 0 \<le> eq_next_id q \<and>
     (\<exists>ns. sorted_wrt (<) ns \<and> (\<forall>n \<in> set ns. 0 < n \<and> n \<le> eq_next_id q) \<and>
           list_all2 numbered (eq_events q) ns)"

lemma push_events:
  "length (eq_events q) \<le> maxEventQueueSize \<Longrightarrow>
   eq_events (push now m p ttl q) =
     lastn maxEventQueueSize (eq_events q @ [pushed_event (now, m, p, ttl) q])"
  by (auto simp: push_def Let_def lastn_snoc_full lastn_all maxEventQueueSize_def)

lemma push_next_id [simp]: "eq_next_id (push now m p ttl q) = eq_next_id q + 1"
  by (simp add: push_def Let_def)

lemma list_all2_tl: "list_all2 P xs ys \<Longrightarrow> list_all2 P (tl xs) (tl ys)"
  by (cases xs; cases ys) auto

lemma eq_inv_new: "eq_inv new_event_queue"
  by (simp add: eq_inv_def new_event_queue_def)

lemma eq_inv_push:
  assumes "eq_inv q"
  shows "eq_inv (push now m p ttl q)"
proof -
  from assms obtain ns where ns: "sorted_wrt (<) ns" "\<forall>n \<in> set ns. 0 < n \<and> n \<le> eq_next_id q"
    "list_all2 numbered (eq_events q) ns" and len: "length (eq_events q) \<le> maxEventQueueSize"
    and pos: "0 \<le> eq_next_id q"
    by (auto simp: eq_inv_def)
  let ?full = "length (eq_events q) \<ge> maxEventQueueSize"
  let ?ms = "(if ?full then tl ns else ns) @ [eq_next_id q + 1]"
  have tl: "sorted_wrt (<) (tl ns)" "set (tl ns) \<subseteq> set ns"
    using ns(1) by (cases ns; auto)+
  have both: "\<forall>n \<in> set ns \<union> set (tl ns). 0 < n \<and> n \<le> eq_next_id q"
    using ns(2) tl(2) by blast
  then have both': "\<forall>n \<in> set ns \<union> set (tl ns). 0 < n \<and> n \<le> eq_next_id q + 1"
    by (meson add_increasing2 order_refl zero_le_one order_trans)
  from both have "sorted_wrt (<) ?ms"
    using ns(1) tl(1) by (fastforce simp: sorted_wrt_append)
  moreover have "\<forall>n \<in> set ?ms. 0 < n \<and> n \<le> eq_next_id (push now m p ttl q)"
    using both' pos by (cases "maxEventQueueSize \<le> length (eq_events q)") auto
  moreover have "list_all2 numbered (eq_events (push now m p ttl q)) ?ms"
    using ns(3) by (auto simp: push_def Let_def numbered_def list_all2_tl intro!: list_all2_appendI)
  moreover have "length (eq_events (push now m p ttl q)) \<le> maxEventQueueSize"
    using len by (simp add: push_events)
  ultimately show ?thesis
    using pos unfolding eq_inv_def by (intro conjI exI [of _ ?ms]) simp_all
qed

lemma eq_inv_filter:
  assumes "eq_inv q"
  shows "eq_inv (q\<lparr>eq_events := filter P (eq_events q)\<rparr>)"
proof -
  from assms obtain ns where ns: "sorted_wrt (<) ns" "\<forall>n \<in> set ns. 0 < n \<and> n \<le> eq_next_id q"
    "list_all2 numbered (eq_events q) ns" and len: "length (eq_events q) \<le> maxEventQueueSize"
    by (auto simp: eq_inv_def)
  have "\<exists>ms. sorted_wrt (<) ms \<and> set ms \<subseteq> set ns \<and> list_all2 numbered (filter P es) ms"
    if "list_all2 numbered es ns" "sorted_wrt (<) ns" for es and ns :: "int list"
    using that
  proof (induction es ns rule: list_all2_induct)
    case (Cons e es n ns)
    then obtain ms where ms: "sorted_wrt (<) ms" "set ms \<subseteq> set ns" "list_all2 numbered (filter P es) ms"
      by auto
    show ?case
    proof (cases "P e")
      case True
      with Cons ms have "sorted_wrt (<) (n # ms)" "list_all2 numbered (filter P (e # es)) (n # ms)"
        by auto
      with ms(2) show ?thesis by (intro exI [of _ "n # ms"]) auto
    next
      case False
      with ms show ?thesis by (intro exI [of _ ms]) auto
    qed
  qed simp
  from this [OF ns(3,1)] obtain ms where "sorted_wrt (<) ms" "set ms \<subseteq> set ns"
    "list_all2 numbered (filter P (eq_events q)) ms" by blast
  with ns(2) len assms show ?thesis
    using order_trans [OF length_filter_le len] unfolding eq_inv_def by auto
qed

lemma eq_inv_ack: "eq_inv q \<Longrightarrow> eq_inv (ack ids q)"
  using eq_inv_filter [of q "\<lambda>e. ev_id e \<notin> set ids"] by (simp add: ack_def)

lemma eq_inv_pop: "eq_inv q \<Longrightarrow> eq_inv (snd (pop_pending now q))"
  using eq_inv_filter [of q "\<lambda>e. False"] by (simp add: pop_pending_def)

lemma eq_inv_distinct:
  assumes "eq_inv q"
  shows "distinct (map ev_id (eq_events q))"
proof -
  from assms obtain ns where ns: "sorted_wrt (<) ns" "\<forall>n \<in> set ns. 0 < n"
    "list_all2 numbered (eq_events q) ns"
    by (auto simp: eq_inv_def)
  from ns(3,1,2) show ?thesis
  proof (induction rule: list_all2_induct)
    case (Cons e es n ns)
    have "ev_id e \<noteq> ev_id e'" if "e' \<in> set es" for e'
    proof -
      from that obtain i where i: "i < length es" "e' = es ! i"
        by (auto simp: in_set_conv_nth)
      with Cons.hyps(2) have "ns ! i \<in> set ns" "numbered e' (ns ! i)"
        by (auto simp: list_all2_conv_all_nth)
      then obtain n' where "n' \<in> set ns" "numbered e' n'" by blast
      then show ?thesis
        using Cons.hyps(1) Cons.prems suffix_id_inj [of n n' "ev_method e" "ev_method e'"]
        by (auto simp: numbered_def)
    qed
    with Cons show ?case by auto
  qed simp
qed

interpretation eventlog: bounded_log new_event_queue push_args pop_pending eq_events pushed_event
    "\<lambda>now e. \<not> expired now e" maxEventQueueSize eq_inv
proof
  show "0 < maxEventQueueSize" by (simp add: maxEventQueueSize_def)
  show "eq_inv new_event_queue" by (rule eq_inv_new)
  show "eq_events new_event_queue = []" by (simp add: new_event_queue_def)
next
  fix q :: "'a event_queue" and i :: "'a push_args"
  assume q: "eq_inv q"
  obtain now m p ttl where i: "i = (now, m, p, ttl)" by (cases i)
  show "eq_inv (push_args i q)" using eq_inv_push [OF q] by (simp add: i)
  show "eq_events (push_args i q) = lastn maxEventQueueSize (eq_events q @ [pushed_event i q])"
    using q by (simp add: i push_events eq_inv_def)
qed (auto simp: eq_inv_pop pop_pending_def eq_inv_def)

section \<open>The queue as a machine\<close>

inductive eq_step :: "'p event_queue \<Rightarrow> 'p event_queue \<Rightarrow> bool" where
  step_push: "eq_step q (push now m p ttl q)"
| step_pop: "eq_step q (snd (pop_pending now q))"
| step_ack: "eq_step q (ack ids q)"

interpretation eqm: machine_invariant "\<lambda>q. q = new_event_queue" eq_step eq_inv
  by unfold_locales (auto simp: eq_inv_new elim!: eq_step.cases intro: eq_inv_push eq_inv_pop eq_inv_ack)


section \<open>Properties\<close>

lemma filter_distinct_key:
  assumes "distinct (map f xs)" "x \<in> set xs"
  shows "filter (\<lambda>y. f y \<noteq> f x) xs = remove1 x xs"
  using assms
proof (induction xs)
  case (Cons y ys)
  show ?case
  proof (cases "y = x")
    case True
    with Cons.prems(1) have "f x \<notin> f ` set ys" by simp
    then have "\<forall>z \<in> set ys. f z \<noteq> f x" by (metis imageI)
    with True show ?thesis by simp
  next
    case False
    with Cons.prems have "f y \<noteq> f x" by auto
    with False Cons show ?thesis by auto
  qed
qed simp

text \<open>
  C31. Whatever sequence of pushes, flushes and acknowledgements a worker's queue goes through,
  it never holds more than 128 events and no two of its events share an identifier.
\<close>

theorem event_queue_bounded_and_unique:
  assumes "reach (\<lambda>q. q = new_event_queue) eq_step q"
  shows "length (eq_events q) \<le> 128 \<and> distinct (map ev_id (eq_events q))"
  using eqm.inv_reach [OF assms] eq_inv_distinct
  by (auto simp: eq_inv_def maxEventQueueSize_def)

theorem event_queue_bounded_and_unique_witness:
  "let q = push 7 ''ping'' True 5 (push 3 ''ping'' False 5 new_event_queue)
   in length (eq_events q) = 2 \<and> distinct (map ev_id (eq_events q))"
proof -
  let ?q = "push 7 ''ping'' True 5 (push 3 ''ping'' False 5 new_event_queue)"
  have "reach (\<lambda>q. q = new_event_queue) eq_step ?q"
    by (rule reach_step [OF reach_step [OF reach_init]]) (rule refl step_push)+
  from event_queue_bounded_and_unique [OF this]
  show ?thesis by (simp add: push_def new_event_queue_def maxEventQueueSize_def)
qed

text \<open>
  A worker that reconnects after any burst of pushes receives, in the order they were
  pushed, exactly those of the newest 128 events that have not expired; a second flush
  delivers nothing, so no event is delivered twice.
\<close>

theorem event_burst_delivery:
  "fst (pop_pending t (fold push_args is new_event_queue)) =
     filter (\<lambda>e. \<not> expired t e)
       (lastn 128 (appended pushed_event push_args is new_event_queue)) \<and>
   fst (pop_pending t' (snd (pop_pending t (fold push_args is new_event_queue)))) = []"
  using eventlog.burst_then_take [of t "is"] eventlog.second_take
  by (simp add: maxEventQueueSize_def)

text \<open>
  Acknowledging one event of a reachable queue removes that event and no other.
\<close>

theorem ack_removes_exactly_one:
  assumes "reach (\<lambda>q. q = new_event_queue) eq_step q" and "e \<in> set (eq_events q)"
  shows "eq_events (ack [ev_id e] q) = remove1 e (eq_events q)"
  using filter_distinct_key [OF eq_inv_distinct [OF eqm.inv_reach [OF assms(1)]] assms(2)]
  by (simp add: ack_def)

theorem ack_removes_exactly_one_witness:
  "let q = push 7 ''a'' True 5 (push 3 ''a'' False 5 new_event_queue);
       e = hd (eq_events q)
   in eq_events (ack [ev_id e] q) = remove1 e (eq_events q) \<and> eq_len (ack [ev_id e] q) = 1"
proof -
  let ?q = "push 7 ''a'' True 5 (push 3 ''a'' False 5 new_event_queue)"
  have r: "reach (\<lambda>q. q = new_event_queue) eq_step ?q"
    by (rule reach_step [OF reach_step [OF reach_init]]) (rule refl step_push)+
  have ev: "eq_events ?q =
    [\<lparr>ev_id = ''a_1'', ev_method = ''a'', ev_params = False, ev_created_at = 3, ev_expires_at = 8\<rparr>,
     \<lparr>ev_id = ''a_2'', ev_method = ''a'', ev_params = True, ev_created_at = 7, ev_expires_at = 12\<rparr>]"
    by (simp add: push_def new_event_queue_def maxEventQueueSize_def itoa_def itoa_loop_step)
  have "hd (eq_events ?q) \<in> set (eq_events ?q)" by (simp add: ev)
  from ack_removes_exactly_one [OF r this] show ?thesis
    by (simp add: Let_def eq_len_def ev)
qed

end
