(* ===== verification/JobSource.thy ===== *)
theory JobSource
  imports Prelude "HOL-Library.Sublist"
begin

text \<open>
  The interface between the scheduler and the task store: a source of jobs with a queue, from
  which jobs are claimed for workers and to which they are released, and the loop of a
  scheduling pass over any such source.
\<close>

section \<open>The dispatch loop\<close>

text \<open>
  The loop of a scheduling pass, over any source of jobs: look at the head of the queue, claim
  it for the next worker, and give it back if the delivery fails. The result also lists the
  jobs that were delivered, with their workers.
\<close>

fun dispatch ::
  "('s \<Rightarrow> 'j option) \<Rightarrow> ('c \<Rightarrow> 'k \<Rightarrow> 'w \<Rightarrow> 's \<Rightarrow> 'j option \<times> 's) \<Rightarrow> ('k \<Rightarrow> 's \<Rightarrow> 'j option \<times> 's) \<Rightarrow>
   ('j \<Rightarrow> 'k) \<Rightarrow> ('c \<times> 'w \<times> ('j \<Rightarrow> bool)) list \<Rightarrow> 's \<Rightarrow> ('j \<times> 'w) list \<times> 's" where
  "dispatch peek claim release key [] s = ([], s)"
| "dispatch peek claim release key ((c, w, good) # xs) s =
     (case peek s of
        None \<Rightarrow> ([], s)
      | Some j \<Rightarrow>
          (case claim c (key j) w s of
             (None, s') \<Rightarrow> dispatch peek claim release key xs s'
           | (Some _, s') \<Rightarrow>
               if good j
               then let (js, s'') = dispatch peek claim release key xs s' in ((j, w) # js, s'')
               else dispatch peek claim release key xs (snd (release (key j) s'))))"

text \<open>Only what could be delivered is listed.\<close>

lemma dispatch_good:
  "(j, w) \<in> set (fst (dispatch peek claim release key xs s)) \<Longrightarrow>
   \<exists>c good. (c, w, good) \<in> set xs \<and> good j"
proof (induction xs arbitrary: s)
  case (Cons x xs)
  obtain c v good where x: "x = (c, v, good)" by (cases x)
  show ?case
  proof (cases "peek s")
    case (Some i)
    obtain r t where t: "claim c (key i) v s = (r, t)" by fastforce
    show ?thesis
      using Cons.IH [of t] Cons.IH [of "snd (release (key i) t)"] Cons.prems Some x t
      by (fastforce simp: Let_def split_beta split: option.splits if_splits)
  qed (use Cons.prems x in simp)
qed simp

text \<open>What claiming and releasing keep, the loop keeps.\<close>

lemma dispatch_keeps:
  assumes "P s" "\<And>s c k w. P s \<Longrightarrow> P (snd (claim c k w s))" "\<And>s k. P s \<Longrightarrow> P (snd (release k s))"
  shows "P (snd (dispatch peek claim release key xs s))"
  using assms(1)
proof (induction xs arbitrary: s)
  case (Cons x xs)
  obtain c w good where x: "x = (c, w, good)" by (cases x)
  show ?case
  proof (cases "peek s")
    case (Some j)
    obtain r t where t: "claim c (key j) w s = (r, t)" by fastforce
    then have "P t" "P (snd (release (key j) t))"
      using Cons.prems assms(2) [of s c "key j" w] assms(3) by auto
    then show ?thesis
      using Cons.IH Some x t by (auto simp: Let_def split_beta split: option.split)
  qed (use Cons.prems x in simp)
qed simp

section \<open>What the loop needs\<close>

text \<open>
  What the pass needs from the store, when the queue holds only claimable jobs: the head can be
  claimed and leaves the queue, and a claimed job that is released goes to the back.
\<close>

locale job_source =
  fixes peek :: "'s \<Rightarrow> 'j option"
    and claim :: "'c \<Rightarrow> 'k \<Rightarrow> 'w \<Rightarrow> 's \<Rightarrow> 'j option \<times> 's"
    and release :: "'k \<Rightarrow> 's \<Rightarrow> 'j option \<times> 's"
    and key :: "'j \<Rightarrow> 'k"
    and pending :: "'s \<Rightarrow> 'k list"
    and ok :: "'s \<Rightarrow> bool"
  assumes peek_Nil: "ok s \<Longrightarrow> pending s = [] \<Longrightarrow> peek s = None"
    and peek_Cons: "ok s \<Longrightarrow> pending s = k # q \<Longrightarrow> \<exists>j. peek s = Some j \<and> key j = k"
    and claim_head: "ok s \<Longrightarrow> pending s = k # q \<Longrightarrow>
          \<exists>j s'. claim c k w s = (Some j, s') \<and> pending s' = q \<and> ok s'"
    and release_claimed: "ok s \<Longrightarrow> pending s = k # q \<Longrightarrow> claim c k w s = (Some j, s') \<Longrightarrow>
          pending (snd (release k s')) = q @ [k] \<and> ok (snd (release k s'))"
begin

text \<open>One round, once and for all: the three ways it can go.\<close>

lemma dispatch_round:
  assumes "ok s"
  obtains (empty) "pending s = []" "dispatch peek claim release key ((c, w, good) # xs) s = ([], s)"
  | (sent) k q j s' where "pending s = k # q" "key j = k" "good j" "pending s' = q" "ok s'"
      "peek s = Some j" "fst (claim c k w s) \<noteq> None" "s' = snd (claim c k w s)"
      "dispatch peek claim release key ((c, w, good) # xs) s =
         (let (js, s'') = dispatch peek claim release key xs s' in ((j, w) # js, s''))"
  | (bounced) k q j s' where "pending s = k # q" "key j = k" "\<not> good j" "pending s' = q @ [k]"
      "ok s'" "peek s = Some j" "s' = snd (release k (snd (claim c k w s)))"
      "dispatch peek claim release key ((c, w, good) # xs) s = dispatch peek claim release key xs s'"
proof (cases "pending s")
  case Nil
  show ?thesis by (rule empty) (simp_all add: Nil peek_Nil [OF assms])
next
  case (Cons k q)
  obtain j where j: "peek s = Some j" "key j = k" using peek_Cons [OF assms Cons] by blast
  obtain j' s' where c: "claim c k w s = (Some j', s')" "pending s' = q" "ok s'"
    using claim_head [OF assms Cons] by blast
  show ?thesis
  proof (cases "good j")
    case True
    show ?thesis by (rule sent [of k q j s']) (simp_all add: True Cons j c)
  next
    case False
    show ?thesis
      by (rule bounced [of k q j "snd (release k s')"])
        (simp_all add: False Cons j c release_claimed [OF assms Cons c(1)])
  qed
qed

lemma dispatch_conserves:
  "ok s \<Longrightarrow> dispatch peek claim release key xs s = (js, s') \<Longrightarrow>
   ok s' \<and> mset (pending s) = mset (map (key \<circ> fst) js) + mset (pending s')"
proof (induction xs arbitrary: s js)
  case (Cons x xs)
  obtain c w good where x: "x = (c, w, good)" by (cases x)
  from Cons.prems(1) show ?case
  proof (cases rule: dispatch_round [where c = c and w = w and good = good and xs = xs])
    case empty
    then show ?thesis using Cons.prems x by simp
  next
    case (sent k q j t)
    then show ?thesis using Cons.IH [of t] Cons.prems(2) x
      by (auto simp: Let_def split: prod.splits)
  next
    case (bounced k q j t)
    then show ?thesis using Cons.IH [of t] Cons.prems(2) x by simp
  qed
qed simp

lemma dispatch_in_order:
  "ok s \<Longrightarrow> dispatch peek claim release key xs s = (js, s') \<Longrightarrow> (\<forall>(c, w, good) \<in> set xs. \<forall>j. good j) \<Longrightarrow>
   map (\<lambda>(j, w). (key j, w)) js = zip (pending s) (map (\<lambda>(c, w, good). w) xs) \<and>
   pending s' = drop (length xs) (pending s)"
proof (induction xs arbitrary: s js)
  case (Cons x xs)
  obtain c w good where x: "x = (c, w, good)" by (cases x)
  from Cons.prems(1) show ?case
  proof (cases rule: dispatch_round [where c = c and w = w and good = good and xs = xs])
    case empty
    then show ?thesis using Cons.prems x by simp
  next
    case (sent k q j t)
    obtain js' where js': "dispatch peek claim release key xs t = (js', s')" "js = (j, w) # js'"
      using sent Cons.prems(2) x by (auto simp: Let_def split: prod.splits)
    then show ?thesis using Cons.IH [OF sent(5) js'(1)] Cons.prems(3) x sent by simp
  next
    case (bounced k q j t)
    then show ?thesis using Cons.prems(3) x by auto
  qed
qed simp

lemma dispatch_workers:
  "subseq (map snd (fst (dispatch peek claim release key xs s))) (map (\<lambda>(c, w, good). w) xs)"
proof (induction xs arbitrary: s)
  case (Cons x xs)
  obtain c w good where x: "x = (c, w, good)" by (cases x)
  show ?case
  proof (cases "peek s")
    case (Some j)
    obtain r t where t: "claim c (key j) w s = (r, t)" by fastforce
    show ?thesis
      using Cons [of t] Cons [of "snd (release (key j) t)"] Some x t
      by (auto simp: Let_def split_beta split: option.split)
  qed (simp add: x)
qed simp

end

text \<open>
  A source that also knows who holds a job: a claim makes the worker the holder, a release
  clears it, and neither touches other jobs.
\<close>

locale held_job_source = job_source +
  fixes holder :: "'a \<Rightarrow> 'd \<Rightarrow> 'e option"
  assumes pending_distinct: "ok s \<Longrightarrow> distinct (pending s)"
    and pending_free: "ok s \<Longrightarrow> k \<in> set (pending s) \<Longrightarrow> holder s k = None"
    and holder_claim: "ok s \<Longrightarrow> pending s = k # q \<Longrightarrow> holder (snd (claim c k w s)) = (holder s)(k \<mapsto> w)"
    and holder_release: "ok s \<Longrightarrow> pending s = k # q \<Longrightarrow>
          holder (snd (release k (snd (claim c k w s)))) = holder s"
begin

lemma dispatch_holders:
  "ok s \<Longrightarrow> dispatch peek claim release key xs s = (js, s') \<Longrightarrow>
   holder s' = holder s ++ map_of (map (\<lambda>(j, w). (key j, w)) js)"
proof (induction xs arbitrary: s js)
  case (Cons x xs)
  obtain c w good where x: "x = (c, w, good)" by (cases x)
  from Cons.prems(1) show ?case
  proof (cases rule: dispatch_round [where c = c and w = w and good = good and xs = xs])
    case empty
    then show ?thesis using Cons.prems x by simp
  next
    case (sent k q j t)
    obtain js' where js': "dispatch peek claim release key xs t = (js', s')" "js = (j, w) # js'"
      using sent Cons.prems(2) x by (auto simp: Let_def split: prod.splits)
    have "k \<notin> set (pending t)" using pending_distinct [OF Cons.prems(1)] sent(1,4) by simp
    then have "k \<notin> set (map (key \<circ> fst) js')"
      using dispatch_conserves [OF sent(5) js'(1)] by (metis set_mset_mset union_iff)
    then have "k \<notin> dom (map_of (map (\<lambda>(j, w). (key j, w)) js'))"
      by (auto simp: dom_map_of_conv_image_fst image_image split_beta)
    then have "(holder s)(k \<mapsto> w) ++ map_of (map (\<lambda>(j, w). (key j, w)) js') =
        holder s ++ map_of (map (\<lambda>(j, w). (key j, w)) js)"
      unfolding js'(2) using sent(2) by (subst map_add_upd_left) auto
    with Cons.IH [OF sent(5) js'(1)] holder_claim [OF Cons.prems(1) sent(1), of c w] sent(8)
    show ?thesis by metis
  next
    case (bounced k q j t)
    then show ?thesis
      using Cons.IH [of t] Cons.prems x holder_release [OF Cons.prems(1) bounced(1), of c w] by simp
  qed
qed simp

end

end
