(* ===== verification/TaskStore.thy ===== *)
theory TaskStore
  imports JobSource
begin

text \<open>
  The master's task store (\<open>internal/master/task_store.go\<close>): every task by identifier, the
  queue of pending identifiers and the identifier counter. Each method holds the store's mutex
  from its first access to its last, so it is one function of the store; the three creation
  loops release it between shards and are folds of a one-shard step. The store hands out
  pointers to its tasks; a result here is the task as the operation leaves it.
\<close>

section \<open>Data\<close>

text \<open>The six values the code assigns to \<open>Task.Status\<close>.\<close>

datatype task_status =
    TaskStatusPending | TaskStatusAssigned | TaskStatusRunning
  | TaskStatusCompleted | TaskStatusFailed | TaskStatusCancelled

fun status_string :: "task_status \<Rightarrow> string" where
  "status_string TaskStatusPending = ''pending''"
| "status_string TaskStatusAssigned = ''assigned''"
| "status_string TaskStatusRunning = ''running''"
| "status_string TaskStatusCompleted = ''completed''"
| "status_string TaskStatusFailed = ''failed''"
| "status_string TaskStatusCancelled = ''cancelled''"

type_synonym task_id = string

record task =
  t_id :: task_id
  t_name :: string
  t_status :: task_status
  t_asns :: "string list"
  t_cidrs :: "string list"
  t_ports :: "int list"
  t_max_rate :: int
  t_assigned_to :: uuid
  t_progress :: string
  t_phase :: string
  t_total_ips :: int
  t_scanned_ips :: int
  t_hits :: int
  t_created_at :: unix
  t_assigned_at :: unix
  t_started_at :: unix
  t_completed_at :: unix
  t_assigned_count :: int
  t_group_id :: string
  t_shard_index :: int
  t_shard_total :: int

record task_store =
  ts_tasks :: "task_id \<rightharpoonup> task"
  ts_pendingQ :: "task_id list"
  ts_next_id :: int

text \<open>The zero value of the Go struct, from which the composite literals of the code start.\<close>

definition zero_task :: task where
  "zero_task =
     \<lparr>t_id = [], t_name = [], t_status = TaskStatusPending, t_asns = [], t_cidrs = [],
      t_ports = [], t_max_rate = 0, t_assigned_to = [], t_progress = [], t_phase = [],
      t_total_ips = 0, t_scanned_ips = 0, t_hits = 0, t_created_at = 0, t_assigned_at = 0,
      t_started_at = 0, t_completed_at = 0, t_assigned_count = 0, t_group_id = [],
      t_shard_index = 0, t_shard_total = 0\<rparr>"

definition new_task_store :: task_store where
  "new_task_store = \<lparr>ts_tasks = Map.empty, ts_pendingQ = [], ts_next_id = 0\<rparr>"

section \<open>Creating tasks\<close>

text \<open>
  The identifier of the next task, and the two statements every creation ends with: the
  counter has advanced, the task is stored under its identifier and queued.
\<close>

definition next_task_id :: "task_store \<Rightarrow> task_id" where
  "next_task_id s = ''t_'' @ fmt_d (ts_next_id s + 1)"

definition store_new :: "task \<Rightarrow> task_store \<Rightarrow> task_store" where
  "store_new t s =
     s\<lparr>ts_tasks := (ts_tasks s)(t_id t \<mapsto> t), ts_pendingQ := ts_pendingQ s @ [t_id t],
       ts_next_id := ts_next_id s + 1\<rparr>"

definition create_task ::
  "unix \<Rightarrow> string \<Rightarrow> string list \<Rightarrow> int list \<Rightarrow> int \<Rightarrow> int \<Rightarrow> task_store \<Rightarrow> task \<times> task_store" where
  "create_task now name asns ports maxRate totalIPs s =
     (let t = zero_task\<lparr>t_id := next_task_id s, t_name := name, t_status := TaskStatusPending,
                t_asns := asns, t_ports := ports, t_max_rate := maxRate,
                t_total_ips := totalIPs, t_created_at := now\<rparr>
      in (t, store_new t s))"

text \<open>
  One round of the shard loops: shard number \<open>i\<close> of \<open>nshards\<close>, with the fields the three
  loops set. \<open>clock i\<close> is the reading of the clock in round \<open>i\<close>.
\<close>

definition shard_task ::
  "(nat \<Rightarrow> unix) \<Rightarrow> string \<Rightarrow> string \<Rightarrow> int list \<Rightarrow> int \<Rightarrow> nat \<Rightarrow> nat \<Rightarrow>
   string list \<Rightarrow> string list \<Rightarrow> int \<Rightarrow> task_store \<Rightarrow> task" where
  "shard_task clock groupID name ports maxRate nshards i asns cidrs totalIPs s =
     zero_task\<lparr>t_id := next_task_id s, t_name := name @ ''-'' @ fmt_d (int i + 1),
       t_status := TaskStatusPending, t_asns := asns, t_cidrs := cidrs, t_ports := ports,
       t_max_rate := maxRate, t_total_ips := totalIPs, t_created_at := clock i,
       t_group_id := groupID, t_shard_index := int i, t_shard_total := int nshards\<rparr>"

text \<open>
  The loop over the shards: \<open>mk i\<close> gives the ASNs, the CIDRs and the size of shard \<open>i\<close>.
\<close>

fun create_loop ::
  "(nat \<Rightarrow> task_store \<Rightarrow> task) \<Rightarrow> nat list \<Rightarrow> task_store \<Rightarrow> task list \<times> task_store" where
  "create_loop mk [] s = ([], s)"
| "create_loop mk (i # is) s =
     (let t = mk i s; (ts, s') = create_loop mk is (store_new t s) in (t # ts, s'))"

text \<open>\<open>groupID\<close> is made from \<open>time.Now().UnixNano()\<close>.\<close>

definition create_cidr_shards ::
  "instant \<Rightarrow> (nat \<Rightarrow> unix) \<Rightarrow> string \<Rightarrow> string list \<Rightarrow> string list list \<Rightarrow> int list \<Rightarrow> int \<Rightarrow>
   task_store \<Rightarrow> task list \<times> task_store" where
  "create_cidr_shards nano clock name asns cidrGroups ports maxRate s =
     (let groupID = ''g_'' @ fmt_d nano; n = length cidrGroups
      in create_loop
           (\<lambda>i. shard_task clock groupID name ports maxRate n i asns (cidrGroups ! i)
                  (int (length (cidrGroups ! i))))
           [0..<n] s)"

text \<open>
  \<open>CreateShards\<close>: without a shard count one task per ASN (or a single task), otherwise
  \<open>shardsCount\<close> tasks that all get every ASN.
\<close>

definition create_shards ::
  "instant \<Rightarrow> (nat \<Rightarrow> unix) \<Rightarrow> string \<Rightarrow> string list \<Rightarrow> int list \<Rightarrow> int \<Rightarrow> int \<Rightarrow> int \<Rightarrow>
   task_store \<Rightarrow> task list \<times> task_store" where
  "create_shards nano clock name asns ports maxRate totalIPs shardsCount s =
     (if shardsCount \<le> 0
      then if length asns \<le> 1
           then let (t, s') = create_task (clock 0) name asns ports maxRate totalIPs s in ([t], s')
           else let groupID = ''g_'' @ fmt_d nano; n = length asns
                in create_loop
                     (\<lambda>i. shard_task clock groupID name ports maxRate n i [asns ! i] []
                            (go_div totalIPs (int n)))
                     [0..<n] s
      else let groupID = ''g_'' @ fmt_d nano; n = nat shardsCount;
               per = go_div totalIPs shardsCount;
               perShard = (if per < 100 then 100 else per)
           in create_loop
                (\<lambda>i. shard_task clock groupID name ports maxRate n i asns [] perShard)
                [0..<n] s)"

section \<open>Moving tasks between states\<close>

text \<open>
  \<open>modify f k\<close> is the assignment to fields of the task a pointer in the map leads to.
\<close>

definition modify_task :: "(task \<Rightarrow> task) \<Rightarrow> task_id \<Rightarrow> task_store \<Rightarrow> task_store" where
  "modify_task f k s = s\<lparr>ts_tasks := (ts_tasks s)(k := map_option f (ts_tasks s k))\<rparr>"

text \<open>The loop that removes the first occurrence of an identifier from the queue.\<close>

definition unqueue :: "task_id \<Rightarrow> task_store \<Rightarrow> task_store" where
  "unqueue k s = s\<lparr>ts_pendingQ := remove1 k (ts_pendingQ s)\<rparr>"

definition enqueue :: "task_id \<Rightarrow> task_store \<Rightarrow> task_store" where
  "enqueue k s = s\<lparr>ts_pendingQ := ts_pendingQ s @ [k]\<rparr>"

definition assign_task ::
  "unix \<Rightarrow> task_id \<Rightarrow> uuid \<Rightarrow> task_store \<Rightarrow> task option \<times> task_store" where
  "assign_task now k w s =
     (case ts_tasks s k of
        None \<Rightarrow> (None, s)
      | Some t \<Rightarrow>
          if t_status t \<noteq> TaskStatusPending then (None, s)
          else let t' = t\<lparr>t_status := TaskStatusAssigned, t_assigned_to := w,
                          t_assigned_at := now, t_assigned_count := t_assigned_count t + 1\<rparr>
               in (Some t', unqueue k (modify_task (\<lambda>_. t') k s)))"

definition start_task :: "unix \<Rightarrow> task_id \<Rightarrow> task_store \<Rightarrow> task option \<times> task_store" where
  "start_task now k s =
     (case ts_tasks s k of
        None \<Rightarrow> (None, s)
      | Some t \<Rightarrow>
          let t' = (if t_status t = TaskStatusAssigned
                    then t\<lparr>t_status := TaskStatusRunning, t_started_at := now\<rparr> else t)
          in (Some t', modify_task (\<lambda>_. t') k s))"

definition update_progress ::
  "task_id \<Rightarrow> string \<Rightarrow> string \<Rightarrow> int \<Rightarrow> int \<Rightarrow> int \<Rightarrow> task_store \<Rightarrow> task_store" where
  "update_progress k phase progress scannedIPs totalIPs hits s =
     modify_task (\<lambda>t. t\<lparr>t_phase := phase, t_progress := progress, t_scanned_ips := scannedIPs,
                        t_total_ips := (if totalIPs > 0 then totalIPs else t_total_ips t),
                        t_hits := hits\<rparr>) k s"

definition complete_task :: "unix \<Rightarrow> task_id \<Rightarrow> int \<Rightarrow> task_store \<Rightarrow> task option \<times> task_store" where
  "complete_task now k hits s =
     (case ts_tasks s k of
        None \<Rightarrow> (None, s)
      | Some t \<Rightarrow>
          let t' = t\<lparr>t_status := TaskStatusCompleted, t_hits := hits, t_completed_at := now\<rparr>
          in (Some t', modify_task (\<lambda>_. t') k s))"

definition terminal :: "task_status \<Rightarrow> bool" where
  "terminal st \<longleftrightarrow> st = TaskStatusCompleted \<or> st = TaskStatusCancelled \<or> st = TaskStatusFailed"

definition cancel_task :: "unix \<Rightarrow> task_id \<Rightarrow> task_store \<Rightarrow> task option \<times> task_store" where
  "cancel_task now k s =
     (case ts_tasks s k of
        None \<Rightarrow> (None, s)
      | Some t \<Rightarrow>
          if terminal (t_status t) then (None, s)
          else let wasPending = (t_status t = TaskStatusPending);
                   t' = t\<lparr>t_status := TaskStatusCancelled, t_completed_at := now\<rparr>;
                   s' = modify_task (\<lambda>_. t') k s
               in (Some t', if wasPending then unqueue k s' else s'))"

definition fail_task :: "unix \<Rightarrow> task_id \<Rightarrow> task_store \<Rightarrow> task option \<times> task_store" where
  "fail_task now k s =
     (case ts_tasks s k of
        None \<Rightarrow> (None, s)
      | Some t \<Rightarrow>
          let t' = t\<lparr>t_status := TaskStatusFailed, t_completed_at := now\<rparr>
          in (Some t', modify_task (\<lambda>_. t') k s))"

definition active :: "task_status \<Rightarrow> bool" where
  "active st \<longleftrightarrow> st = TaskStatusAssigned \<or> st = TaskStatusRunning"

definition reassign_task :: "task_id \<Rightarrow> task_store \<Rightarrow> task option \<times> task_store" where
  "reassign_task k s =
     (case ts_tasks s k of
        None \<Rightarrow> (None, s)
      | Some t \<Rightarrow>
          if \<not> active (t_status t) then (None, s)
          else let t' = t\<lparr>t_status := TaskStatusPending, t_assigned_to := []\<rparr>
               in (Some t', enqueue k (modify_task (\<lambda>_. t') k s)))"

section \<open>Reading\<close>

definition get_pending :: "task_store \<Rightarrow> task option" where
  "get_pending s = (case ts_pendingQ s of [] \<Rightarrow> None | k # _ \<Rightarrow> ts_tasks s k)"

definition pop_pending_task :: "task_store \<Rightarrow> task option \<times> task_store" where
  "pop_pending_task s =
     (case ts_pendingQ s of
        [] \<Rightarrow> (None, s)
      | k # q \<Rightarrow> (ts_tasks s k, s\<lparr>ts_pendingQ := q\<rparr>))"

definition get_by_id :: "task_id \<Rightarrow> task_store \<Rightarrow> task option" where
  "get_by_id k s = ts_tasks s k"

text \<open>\<open>ks\<close> is the order in which the iteration over the map visits the identifiers.\<close>

definition list_tasks :: "task_id list \<Rightarrow> task_store \<Rightarrow> task list" where
  "list_tasks ks s = entries ks (ts_tasks s)"

definition get_by_group_id :: "task_id list \<Rightarrow> string \<Rightarrow> task_store \<Rightarrow> task list" where
  "get_by_group_id ks g s = filter (\<lambda>t. t_group_id t = g) (entries ks (ts_tasks s))"

definition held_by :: "uuid \<Rightarrow> task \<Rightarrow> bool" where
  "held_by w t \<longleftrightarrow> t_assigned_to t = w \<and> active (t_status t)"

definition get_worker_active_tasks :: "task_id list \<Rightarrow> uuid \<Rightarrow> task_store \<Rightarrow> task list" where
  "get_worker_active_tasks ks w s = filter (held_by w) (entries ks (ts_tasks s))"

section \<open>Operations on several tasks\<close>

text \<open>
  \<open>CancelGroup\<close> takes a snapshot of the group and cancels its tasks one by one, each under
  the lock.
\<close>

fun cancel_loop :: "unix \<Rightarrow> task list \<Rightarrow> task_store \<Rightarrow> task list \<times> task_store" where
  "cancel_loop now [] s = ([], s)"
| "cancel_loop now (t # ts) s =
     (let (c, s1) = cancel_task now (t_id t) s; (cs, s2) = cancel_loop now ts s1
      in (case c of None \<Rightarrow> cs | Some c' \<Rightarrow> c' # cs, s2))"

definition cancel_group ::
  "unix \<Rightarrow> task_id list \<Rightarrow> string \<Rightarrow> task_store \<Rightarrow> task list \<times> task_store" where
  "cancel_group now ks g s = cancel_loop now (get_by_group_id ks g s) s"

text \<open>
  \<open>ReassignWorkerTasks\<close>: tasks of the worker go back to the queue, but a running task that
  started less than 180 seconds ago is skipped.
\<close>

definition in_grace :: "unix \<Rightarrow> task \<Rightarrow> bool" where
  "in_grace now t \<longleftrightarrow> t_status t = TaskStatusRunning \<and> now - t_started_at t < 180"

fun reassign_loop :: "unix \<Rightarrow> uuid \<Rightarrow> task_id list \<Rightarrow> task_store \<Rightarrow> nat \<times> task_store" where
  "reassign_loop now w [] s = (0, s)"
| "reassign_loop now w (k # ks) s =
     (case ts_tasks s k of
        None \<Rightarrow> reassign_loop now w ks s
      | Some t \<Rightarrow>
          if held_by w t \<and> \<not> in_grace now t
          then let t' = t\<lparr>t_status := TaskStatusPending, t_assigned_to := []\<rparr>;
                   (n, s') = reassign_loop now w ks
                               (enqueue (t_id t) (modify_task (\<lambda>_. t') k s))
               in (n + 1, s')
          else reassign_loop now w ks s)"

definition reassign_worker_tasks :: "unix \<Rightarrow> task_id list \<Rightarrow> uuid \<Rightarrow> task_store \<Rightarrow> nat \<times> task_store" where
  "reassign_worker_tasks now ks w s = reassign_loop now w ks s"

fun count_loop :: "task list \<Rightarrow> (task_status \<Rightarrow> nat) \<Rightarrow> (task_status \<Rightarrow> nat)" where
  "count_loop [] c = c"
| "count_loop (t # ts) c = count_loop ts (c(t_status t := c (t_status t) + 1))"

definition task_counts :: "task_id list \<Rightarrow> task_store \<Rightarrow> (task_status \<Rightarrow> nat)" where
  "task_counts ks s = count_loop (entries ks (ts_tasks s)) (\<lambda>_. 0)"


section \<open>The invariant\<close>

text \<open>
  Identifiers are those the counter has produced; the queue has no repetitions, holds every
  pending task and no task that is assigned, running or cancelled. A completed or failed task
  may still be queued: \<open>CompleteTask\<close> and \<open>FailTask\<close> do not look at the queue.
\<close>

definition issued :: "task_store \<Rightarrow> task_id \<Rightarrow> bool" where
  "issued s k \<longleftrightarrow> (\<exists>n. 1 \<le> n \<and> n \<le> ts_next_id s \<and> k = ''t_'' @ fmt_d n)"

definition queueable :: "task_status \<Rightarrow> bool" where
  "queueable st \<longleftrightarrow> st = TaskStatusPending \<or> st = TaskStatusCompleted \<or> st = TaskStatusFailed"

definition ts_inv :: "task_store \<Rightarrow> bool" where
  "ts_inv s \<longleftrightarrow> 0 \<le> ts_next_id s \<and> finite (dom (ts_tasks s)) \<and>
     (\<forall>k t. ts_tasks s k = Some t \<longrightarrow> t_id t = k \<and> issued s k) \<and>
     distinct (ts_pendingQ s) \<and>
     (\<forall>k \<in> set (ts_pendingQ s). \<exists>t. ts_tasks s k = Some t \<and> queueable (t_status t)) \<and>
     (\<forall>k t. ts_tasks s k = Some t \<longrightarrow> t_status t = TaskStatusPending \<longrightarrow> k \<in> set (ts_pendingQ s))"

lemma ts_invD:
  assumes "ts_inv s"
  shows "0 \<le> ts_next_id s" "finite (dom (ts_tasks s))" "distinct (ts_pendingQ s)"
    and "ts_tasks s k = Some t \<Longrightarrow> t_id t = k"
    and "ts_tasks s k = Some t \<Longrightarrow> issued s k"
    and "k \<in> set (ts_pendingQ s) \<Longrightarrow> \<exists>t. ts_tasks s k = Some t \<and> queueable (t_status t)"
    and "ts_tasks s k = Some t \<Longrightarrow> t_status t = TaskStatusPending \<Longrightarrow> k \<in> set (ts_pendingQ s)"
  using assms by (auto simp: ts_inv_def)

lemma status_simps [simp]:
  "active TaskStatusAssigned" "active TaskStatusRunning" "\<not> active TaskStatusPending"
  "\<not> active TaskStatusCompleted" "\<not> active TaskStatusFailed" "\<not> active TaskStatusCancelled"
  "terminal TaskStatusCompleted" "terminal TaskStatusFailed" "terminal TaskStatusCancelled"
  "\<not> terminal TaskStatusPending" "\<not> terminal TaskStatusAssigned" "\<not> terminal TaskStatusRunning"
  "queueable TaskStatusPending" "queueable TaskStatusCompleted" "queueable TaskStatusFailed"
  "\<not> queueable TaskStatusAssigned" "\<not> queueable TaskStatusRunning"
  "\<not> queueable TaskStatusCancelled"
  by (simp_all add: active_def terminal_def queueable_def)

lemma status_cases: "active st \<or> terminal st \<or> st = TaskStatusPending"
  by (cases st) simp_all

lemma active_not_queueable: "active st \<Longrightarrow> \<not> queueable st"
  by (cases st) simp_all

lemma active_not_terminal: "active st \<Longrightarrow> \<not> terminal st"
  by (cases st) simp_all

lemma store_simps [simp]:
  "ts_tasks (modify_task f k s) = (ts_tasks s)(k := map_option f (ts_tasks s k))"
  "ts_pendingQ (modify_task f k s) = ts_pendingQ s"
  "ts_next_id (modify_task f k s) = ts_next_id s"
  "ts_tasks (unqueue k s) = ts_tasks s" "ts_pendingQ (unqueue k s) = remove1 k (ts_pendingQ s)"
  "ts_next_id (unqueue k s) = ts_next_id s"
  "ts_tasks (enqueue k s) = ts_tasks s" "ts_pendingQ (enqueue k s) = ts_pendingQ s @ [k]"
  "ts_next_id (enqueue k s) = ts_next_id s"
  "ts_tasks (store_new t s) = (ts_tasks s)(t_id t \<mapsto> t)"
  "ts_pendingQ (store_new t s) = ts_pendingQ s @ [t_id t]"
  "ts_next_id (store_new t s) = ts_next_id s + 1"
  by (simp_all add: modify_task_def unqueue_def enqueue_def store_new_def)

lemma issued_simps [simp]:
  "issued (modify_task f k s) = issued s" "issued (unqueue k s) = issued s"
  "issued (enqueue k s) = issued s"
  by (simp_all add: issued_def fun_eq_iff)

lemma issued_store_new: "issued s k \<Longrightarrow> issued (store_new t s) k"
  by (force simp: issued_def)

lemma next_task_id_issued: "0 \<le> ts_next_id s \<Longrightarrow> issued (store_new t s) (next_task_id s)"
  unfolding issued_def next_task_id_def by (intro exI [of _ "ts_next_id s + 1"]) simp

lemma next_task_id_fresh: "0 \<le> ts_next_id s \<Longrightarrow> \<not> issued s (next_task_id s)"
  by (auto simp: issued_def next_task_id_def fmt_d_inj_nonneg)

lemma next_task_id_new: "ts_inv s \<Longrightarrow> ts_tasks s (next_task_id s) = None"
  by (metis next_task_id_fresh not_None_eq ts_invD(1,5))

subsection \<open>How a status change keeps it\<close>

lemma ts_inv_same_status:
  assumes "ts_inv s" "\<And>t. t_id (f t) = t_id t" "\<And>t. t_status (f t) = t_status t"
  shows "ts_inv (modify_task f k s)"
  using assms by (fastforce simp: ts_inv_def)

lemma ts_inv_finish:
  assumes "ts_inv s" "ts_tasks s k = Some t" "t_id t' = t_id t"
    and "t_status t' = TaskStatusCompleted \<or> t_status t' = TaskStatusFailed"
  shows "ts_inv (modify_task (\<lambda>_. t') k s)"
  using assms by (fastforce simp: ts_inv_def)

lemma ts_inv_leave_queue:
  assumes "ts_inv s" "ts_tasks s k = Some t" "t_id t' = t_id t"
    and "t_status t' \<noteq> TaskStatusPending"
  shows "ts_inv (unqueue k (modify_task (\<lambda>_. t') k s))"
  using assms by (fastforce simp: ts_inv_def)

lemma ts_inv_leave_active:
  assumes "ts_inv s" "ts_tasks s k = Some t" "t_id t' = t_id t" "active (t_status t)"
    and "t_status t' \<noteq> TaskStatusPending"
  shows "ts_inv (modify_task (\<lambda>_. t') k s)"
  using assms active_not_queueable by (fastforce simp: ts_inv_def)

lemma ts_inv_requeue:
  assumes "ts_inv s" "ts_tasks s k = Some t" "t_id t' = t_id t" "active (t_status t)"
    and "t_status t' = TaskStatusPending"
  shows "ts_inv (enqueue k (modify_task (\<lambda>_. t') k s))"
proof -
  have "k \<notin> set (ts_pendingQ s)"
    using assms(1,2,4) active_not_queueable ts_invD(6) by fastforce
  then show ?thesis using assms by (fastforce simp: ts_inv_def)
qed

lemma ts_inv_store_new:
  assumes "ts_inv s" "t_id t = next_task_id s" "t_status t = TaskStatusPending"
  shows "ts_inv (store_new t s)"
proof -
  note new = next_task_id_new [OF assms(1)]
  have "next_task_id s \<notin> set (ts_pendingQ s)"
    using new assms(1) ts_invD(6) by fastforce
  then show ?thesis
    using assms new by (fastforce simp: ts_inv_def issued_store_new next_task_id_issued)
qed

subsection \<open>Every operation keeps it\<close>

lemma ts_inv_new: "ts_inv new_task_store"
  by (simp add: ts_inv_def new_task_store_def)

lemma ts_inv_create: "ts_inv s \<Longrightarrow> ts_inv (snd (create_task now name asns ports mr n s))"
  by (simp add: create_task_def Let_def ts_inv_store_new)

lemma ts_inv_create_loop:
  "ts_inv s \<Longrightarrow> (\<And>i s. t_id (mk i s) = next_task_id s \<and> t_status (mk i s) = TaskStatusPending) \<Longrightarrow>
   ts_inv (snd (create_loop mk is s))"
  by (induction mk "is" s rule: create_loop.induct)
    (auto simp: Let_def split_beta intro: ts_inv_store_new)

lemma shard_task_simps [simp]:
  "t_id (shard_task clock g name ports mr n i asns cidrs tot s) = next_task_id s"
  "t_status (shard_task clock g name ports mr n i asns cidrs tot s) = TaskStatusPending"
  "t_group_id (shard_task clock g name ports mr n i asns cidrs tot s) = g"
  "t_asns (shard_task clock g name ports mr n i asns cidrs tot s) = asns"
  "t_cidrs (shard_task clock g name ports mr n i asns cidrs tot s) = cidrs"
  "t_shard_index (shard_task clock g name ports mr n i asns cidrs tot s) = int i"
  "t_shard_total (shard_task clock g name ports mr n i asns cidrs tot s) = int n"
  "t_total_ips (shard_task clock g name ports mr n i asns cidrs tot s) = tot"
  by (simp_all add: shard_task_def)

lemma ts_inv_cidr_shards:
  "ts_inv s \<Longrightarrow> ts_inv (snd (create_cidr_shards nano clock name asns groups ports mr s))"
  by (simp add: create_cidr_shards_def Let_def ts_inv_create_loop)

lemma ts_inv_shards:
  "ts_inv s \<Longrightarrow> ts_inv (snd (create_shards nano clock name asns ports mr tot n s))"
  using ts_inv_create [of s] by (simp add: create_shards_def Let_def ts_inv_create_loop split_beta)

lemma ts_inv_assign: "ts_inv s \<Longrightarrow> ts_inv (snd (assign_task now k w s))"
  by (auto simp: assign_task_def Let_def split: option.split intro: ts_inv_leave_queue)

lemma ts_inv_start: "ts_inv s \<Longrightarrow> ts_inv (snd (start_task now k s))"
proof -
  assume inv: "ts_inv s"
  { fix t assume t: "ts_tasks s k = Some t"
    have "ts_inv (modify_task (\<lambda>_. t) k s)"
      using inv t by (simp add: modify_task_def fun_upd_idem)
    then have ?thesis
      using inv t by (auto simp: start_task_def Let_def intro: ts_inv_leave_active) }
  then show ?thesis using inv by (cases "ts_tasks s k") (auto simp: start_task_def)
qed

lemma ts_inv_progress: "ts_inv s \<Longrightarrow> ts_inv (update_progress k ph pr sc tot h s)"
  by (simp add: update_progress_def ts_inv_same_status)

lemma ts_inv_complete: "ts_inv s \<Longrightarrow> ts_inv (snd (complete_task now k h s))"
  by (auto simp: complete_task_def Let_def split: option.split intro: ts_inv_finish)

lemma ts_inv_fail: "ts_inv s \<Longrightarrow> ts_inv (snd (fail_task now k s))"
  by (auto simp: fail_task_def Let_def split: option.split intro: ts_inv_finish)

lemma ts_inv_cancel: "ts_inv s \<Longrightarrow> ts_inv (snd (cancel_task now k s))"
  using status_cases
  by (fastforce simp: cancel_task_def Let_def split: option.split
      intro: ts_inv_leave_queue ts_inv_leave_active)

lemma ts_inv_cancel_loop: "ts_inv s \<Longrightarrow> ts_inv (snd (cancel_loop now ts s))"
  by (induction ts arbitrary: s) (auto simp: split_beta Let_def ts_inv_cancel split: option.split)

lemma ts_inv_reassign: "ts_inv s \<Longrightarrow> ts_inv (snd (reassign_task k s))"
  by (auto simp: reassign_task_def Let_def split: option.split intro: ts_inv_requeue)

lemma ts_inv_reassign_loop: "ts_inv s \<Longrightarrow> ts_inv (snd (reassign_loop now w ks s))"
proof (induction now w ks s rule: reassign_loop.induct)
  case (2 now w k ks s)
  show ?case
  proof (cases "ts_tasks s k")
    case (Some t)
    then have "t_id t = k" using 2(4) ts_invD(4) by blast
    then show ?thesis
      using 2 Some ts_inv_requeue [OF 2(4) Some]
      by (auto simp: Let_def split_beta held_by_def)
  qed (use 2 in simp)
qed simp


section \<open>The store as a machine\<close>

text \<open>
  The steps are the operations under the lock, with any arguments; a shard loop is a
  sequence of single creations, and \<open>CancelGroup\<close> a sequence of cancellations.
  \<open>PopPending\<close>, which nothing in the repository calls, is not a step: it takes an
  identifier out of the queue and leaves its task pending (\<open>pop_pending_loses\<close>).
\<close>

inductive ts_step :: "task_store \<Rightarrow> task_store \<Rightarrow> bool" where
  step_create: "t_id t = next_task_id s \<Longrightarrow> t_status t = TaskStatusPending \<Longrightarrow>
     ts_step s (store_new t s)"
| step_assign: "ts_step s (snd (assign_task now k w s))"
| step_start: "ts_step s (snd (start_task now k s))"
| step_progress: "ts_step s (update_progress k ph pr sc tot h s)"
| step_complete: "ts_step s (snd (complete_task now k h s))"
| step_cancel: "ts_step s (snd (cancel_task now k s))"
| step_fail: "ts_step s (snd (fail_task now k s))"
| step_reassign: "ts_step s (snd (reassign_task k s))"
| step_reassign_worker: "ts_step s (snd (reassign_worker_tasks now ks w s))"

lemma ts_inv_step: "ts_step s s' \<Longrightarrow> ts_inv s \<Longrightarrow> ts_inv s'"
  by (induction rule: ts_step.induct)
    (auto simp: ts_inv_store_new ts_inv_assign ts_inv_start ts_inv_progress ts_inv_complete
       ts_inv_cancel ts_inv_fail ts_inv_reassign ts_inv_reassign_loop reassign_worker_tasks_def)

text \<open>The creation methods are sequences of creation steps.\<close>

lemma create_task_step: "ts_step s (snd (create_task now name asns ports mr n s))"
  by (simp add: create_task_def Let_def) (rule step_create; simp)

lemma create_loop_steps:
  assumes "\<And>i s. t_id (mk i s) = next_task_id s \<and> t_status (mk i s) = TaskStatusPending"
  shows "ts_step\<^sup>*\<^sup>* s (snd (create_loop mk is s))"
proof (induction "is" arbitrary: s)
  case (Cons i "is")
  have "ts_step s (store_new (mk i s) s)" using assms by (intro step_create) auto
  then show ?case
    using Cons by (simp add: Let_def split_beta converse_rtranclp_into_rtranclp)
qed simp

lemma create_cidr_shards_steps:
  "ts_step\<^sup>*\<^sup>* s (snd (create_cidr_shards nano clock name asns groups ports mr s))"
  by (simp add: create_cidr_shards_def Let_def create_loop_steps)

lemma create_shards_steps:
  "ts_step\<^sup>*\<^sup>* s (snd (create_shards nano clock name asns ports mr tot n s))"
  using r_into_rtranclp [of ts_step, OF create_task_step [of s "clock 0" name asns ports mr tot]]
  by (simp add: create_shards_def Let_def create_loop_steps split_beta)

lemma cancel_loop_steps: "ts_step\<^sup>*\<^sup>* s (snd (cancel_loop now ts s))"
proof (induction ts arbitrary: s)
  case (Cons t ts)
  have "ts_step s (snd (cancel_task now (t_id t) s))" by (rule step_cancel)
  then show ?case
    using Cons by (simp add: Let_def split_beta converse_rtranclp_into_rtranclp split: option.split)
qed simp

section \<open>The life of a task\<close>

text \<open>
  The abstract machine: a board that shows a status per identifier. Only finishing
  (completed, failed) is possible from every state.
\<close>

inductive status_move :: "task_status \<Rightarrow> task_status \<Rightarrow> bool" where
  move_assign: "status_move TaskStatusPending TaskStatusAssigned"
| move_start: "status_move TaskStatusAssigned TaskStatusRunning"
| move_back: "active st \<Longrightarrow> status_move st TaskStatusPending"
| move_cancel: "\<not> terminal st \<Longrightarrow> status_move st TaskStatusCancelled"
| move_complete: "status_move st TaskStatusCompleted"
| move_fail: "status_move st TaskStatusFailed"

inductive_simps status_move_pending: "status_move st TaskStatusPending"
inductive_simps status_move_assigned: "status_move st TaskStatusAssigned"
inductive_simps status_move_running: "status_move st TaskStatusRunning"

inductive board_step :: "(task_id \<rightharpoonup> task_status) \<Rightarrow> (task_id \<rightharpoonup> task_status) \<Rightarrow> bool" where
  board_create: "b k = None \<Longrightarrow> board_step b (b(k \<mapsto> TaskStatusPending))"
| board_move: "b k = Some st \<Longrightarrow> status_move st st' \<Longrightarrow> board_step b (b(k \<mapsto> st'))"

definition board :: "task_store \<Rightarrow> (task_id \<rightharpoonup> task_status)" where
  "board s = map_option t_status \<circ> ts_tasks s"

lemma board_simps [simp]:
  "board (unqueue k s) = board s" "board (enqueue k s) = board s"
  "board (store_new t s) = (board s)(t_id t \<mapsto> t_status t)"
  by (auto simp: board_def)

lemma board_modify:
  "ts_tasks s k = Some t \<Longrightarrow> board (modify_task f k s) = (board s)(k \<mapsto> t_status (f t))"
  by (auto simp: board_def)

lemma board_lookup: "ts_tasks s k = Some t \<Longrightarrow> board s k = Some (t_status t)"
  by (simp add: board_def)

lemma board_modify_same:
  "ts_tasks s k = Some t \<Longrightarrow> t_status (f t) = t_status t \<Longrightarrow> board (modify_task f k s) = board s"
  by (auto simp: board_def)

lemma board_modify_move:
  "ts_tasks s k = Some t \<Longrightarrow> status_move (t_status t) (t_status t') \<Longrightarrow>
   board_step\<^sup>*\<^sup>* (board s) (board (modify_task (\<lambda>_. t') k s))"
  by (auto simp: board_modify board_lookup intro!: r_into_rtranclp board_move)

lemma reassign_loop_board: "board_step\<^sup>*\<^sup>* (board s) (board (snd (reassign_loop now w ks s)))"
proof (induction ks arbitrary: s)
  case (Cons k ks)
  show ?case
  proof (cases "ts_tasks s k")
    case (Some t)
    let ?t' = "t\<lparr>t_status := TaskStatusPending, t_assigned_to := []\<rparr>"
    have "board_step\<^sup>*\<^sup>* (board s) (board (modify_task (\<lambda>_. ?t') k s))" if "held_by w t"
      using that by (intro board_modify_move [OF Some]) (auto simp: held_by_def intro: move_back)
    then show ?thesis
      using Some Cons [of s] Cons [of "enqueue (t_id t) (modify_task (\<lambda>_. ?t') k s)"]
      by (auto simp: Let_def split_beta)
  qed (use Cons in simp)
qed simp

lemma board_simulation:
  assumes "ts_inv s" "ts_step s s'"
  shows "board_step\<^sup>*\<^sup>* (board s) (board s')"
  using assms(2,1)
proof (induction rule: ts_step.induct)
  case (step_create t s)
  then have "board s (t_id t) = None" by (simp add: board_def next_task_id_new)
  from board_create [of "board s", OF this] show ?case
    using step_create(2) board_simps(3) [of t s] by (metis r_into_rtranclp)
next
  case (step_start s now k)
  then show ?case
    by (auto simp: start_task_def Let_def board_modify_same split: option.split
        intro!: board_modify_move move_start)
next
  case (step_progress s k ph pr sc tot h)
  have "board (update_progress k ph pr sc tot h s) = board s"
    by (cases "ts_tasks s k") (auto simp: update_progress_def board_def)
  then show ?case by simp
next
  case (step_reassign_worker s now ks w)
  then show ?case by (simp add: reassign_worker_tasks_def reassign_loop_board)
qed (auto simp: assign_task_def complete_task_def cancel_task_def fail_task_def
      reassign_task_def Let_def split: option.split
      intro!: board_modify_move status_move.intros)

interpretation tsm: machine_simulation "\<lambda>s. s = new_task_store" ts_step ts_inv
    "\<lambda>b. b = Map.empty" "board_step\<^sup>*\<^sup>*" board
proof
  show "board s = Map.empty" if "s = new_task_store" for s
    using that by (auto simp: board_def new_task_store_def)
  show "board s' = board s \<or> board_step\<^sup>*\<^sup>* (board s) (board s')"
    if "ts_inv s" "ts_step s s'" for s s'
    using board_simulation [OF that] by simp
qed (auto simp: ts_inv_new intro: ts_inv_step)


text \<open>A finished task stays finished on the board.\<close>

lemma board_step_terminal:
  "board_step b b' \<Longrightarrow> b k = Some st \<Longrightarrow> terminal st \<Longrightarrow> \<exists>st'. b' k = Some st' \<and> terminal st'"
  by (induction rule: board_step.induct) (auto elim!: status_move.cases dest: active_not_terminal)

lemma board_steps_terminal:
  "board_step\<^sup>*\<^sup>* b b' \<Longrightarrow> b k = Some st \<Longrightarrow> terminal st \<Longrightarrow> \<exists>st'. b' k = Some st' \<and> terminal st'"
  by (induction rule: rtranclp_induct) (blast dest: board_step_terminal)+

text \<open>What a task was created with never changes.\<close>

definition task_order :: "task \<Rightarrow> task" where
  "task_order t = zero_task\<lparr>t_id := t_id t, t_name := t_name t, t_asns := t_asns t,
     t_cidrs := t_cidrs t, t_ports := t_ports t, t_max_rate := t_max_rate t,
     t_created_at := t_created_at t, t_group_id := t_group_id t,
     t_shard_index := t_shard_index t, t_shard_total := t_shard_total t\<rparr>"

lemma task_order_upd [simp]:
  "task_order (t\<lparr>t_status := a\<rparr>) = task_order t" "task_order (t\<lparr>t_assigned_to := b\<rparr>) = task_order t"
  "task_order (t\<lparr>t_assigned_at := c\<rparr>) = task_order t" "task_order (t\<lparr>t_started_at := c\<rparr>) = task_order t"
  "task_order (t\<lparr>t_completed_at := c\<rparr>) = task_order t" "task_order (t\<lparr>t_hits := c\<rparr>) = task_order t"
  "task_order (t\<lparr>t_assigned_count := c\<rparr>) = task_order t" "task_order (t\<lparr>t_phase := b\<rparr>) = task_order t"
  "task_order (t\<lparr>t_progress := b\<rparr>) = task_order t" "task_order (t\<lparr>t_scanned_ips := c\<rparr>) = task_order t"
  "task_order (t\<lparr>t_total_ips := c\<rparr>) = task_order t"
  by (simp_all add: task_order_def)

definition orders :: "task_store \<Rightarrow> (task_id \<rightharpoonup> task)" where
  "orders s = map_option task_order \<circ> ts_tasks s"

lemma orders_modify: "(\<And>t. task_order (f t) = task_order t) \<Longrightarrow> orders (modify_task f k s) = orders s"
  by (rule ext) (simp add: orders_def option.map_comp comp_def)

lemma orders_set:
  "ts_tasks s k = Some t \<Longrightarrow> task_order t' = task_order t \<Longrightarrow> orders (modify_task (\<lambda>_. t') k s) = orders s"
  by (rule ext) (simp add: orders_def)

lemma orders_queue [simp]: "orders (unqueue k s) = orders s" "orders (enqueue k s) = orders s"
  by (simp_all add: orders_def)

lemma orders_reassign_loop: "orders (snd (reassign_loop now w ks s)) = orders s"
  by (induction ks arbitrary: s) (auto simp: Let_def split_beta orders_set split: option.split)

lemma orders_step: "ts_step s s' \<Longrightarrow> ts_inv s \<Longrightarrow> orders s \<subseteq>\<^sub>m orders s'"
proof (induction rule: ts_step.induct)
  case (step_create t s)
  then have "orders s (t_id t) = None" by (simp add: orders_def next_task_id_new)
  moreover have "orders (store_new t s) = (orders s)(t_id t \<mapsto> task_order t)"
    by (rule ext) (simp add: orders_def)
  ultimately show ?case by (simp add: map_le_def dom_def)
next
  case (step_progress s k ph pr sc tot h)
  then show ?case by (simp add: update_progress_def orders_modify)
next
  case (step_reassign_worker s now ks w)
  then show ?case by (simp add: reassign_worker_tasks_def orders_reassign_loop)
qed (simp_all add: assign_task_def start_task_def complete_task_def cancel_task_def fail_task_def
      reassign_task_def Let_def orders_set split: option.split)

lemma ts_inv_steps: "ts_step\<^sup>*\<^sup>* s s' \<Longrightarrow> ts_inv s \<Longrightarrow> ts_inv s'"
  by (induction rule: rtranclp_induct) (auto intro: ts_inv_step)

lemma orders_steps: "ts_step\<^sup>*\<^sup>* s s' \<Longrightarrow> ts_inv s \<Longrightarrow> orders s \<subseteq>\<^sub>m orders s'"
  by (induction rule: rtranclp_induct) (auto intro: map_le_trans orders_step ts_inv_steps)

lemma board_steps: "ts_step\<^sup>*\<^sup>* s s' \<Longrightarrow> ts_inv s \<Longrightarrow> board_step\<^sup>*\<^sup>* (board s) (board s')"
  by (induction rule: rtranclp_induct) (simp, meson board_simulation rtranclp_trans ts_inv_steps)

lemma life_of_task:
  assumes "ts_inv s" "ts_step\<^sup>*\<^sup>* s s'" "ts_tasks s k = Some t"
  shows "\<exists>t'. ts_tasks s' k = Some t' \<and> task_order t' = task_order t \<and>
              (terminal (t_status t) \<longrightarrow> terminal (t_status t'))"
proof -
  have "orders s k = Some (task_order t)" by (simp add: orders_def assms(3))
  with orders_steps [OF assms(2,1)] have "orders s' k = Some (task_order t)"
    by (metis domI map_le_def)
  then obtain t' where t': "ts_tasks s' k = Some t'" "task_order t' = task_order t"
    by (auto simp: orders_def)
  moreover have "terminal (t_status t')" if "terminal (t_status t)"
    using board_steps_terminal [OF board_steps [OF assms(2,1)] board_lookup [OF assms(3)] that]
    by (auto simp: board_lookup [OF t'(1)])
  ultimately show ?thesis by blast
qed

section \<open>The effect of the loops\<close>

lemma create_loop_effect:
  assumes mk: "\<And>i s. t_id (mk i s) = next_task_id s \<and> t_status (mk i s) = TaskStatusPending"
  shows "ts_inv s \<Longrightarrow> create_loop mk is s = (ts, s') \<Longrightarrow>
    length ts = length is \<and> ts_pendingQ s' = ts_pendingQ s @ map t_id ts \<and>
    ts_tasks s' = ts_tasks s ++ map_of (map (\<lambda>t. (t_id t, t)) ts) \<and>
    (\<forall>t \<in> set ts. ts_tasks s (t_id t) = None)"
proof (induction "is" arbitrary: s ts)
  case (Cons i "is")
  let ?s = "store_new (mk i s) s"
  have inv: "ts_inv ?s" using Cons.prems(1) mk by (intro ts_inv_store_new) auto
  from Cons.prems(2) obtain ts' where ts': "create_loop mk is ?s = (ts', s')" "ts = mk i s # ts'"
    by (auto simp: Let_def split_beta prod_eq_iff)
  note IH = Cons.IH [OF inv ts'(1)]
  have "ts_inv s'" using ts_inv_create_loop [OF inv, of mk "is"] mk ts'(1) by simp
  then have "t_id (mk i s) \<notin> set (map t_id ts')"
    using IH ts_invD(3) [of s'] by auto
  then have "(ts_tasks s)(t_id (mk i s) \<mapsto> mk i s) ++ map_of (map (\<lambda>t. (t_id t, t)) ts') =
      ts_tasks s ++ map_of (map (\<lambda>t. (t_id t, t)) ts)"
    unfolding ts'(2) by (subst map_add_upd_left) (auto simp: dom_map_of_conv_image_fst image_image)
  with IH [unfolded store_simps] have "ts_tasks s' = ts_tasks s ++ map_of (map (\<lambda>t. (t_id t, t)) ts)"
    by (elim conjE) (erule trans)
  moreover have "length ts = length (i # is)" "ts_pendingQ s' = ts_pendingQ s @ map t_id ts"
    using IH ts'(2) by simp_all
  moreover have "\<forall>t \<in> set ts. ts_tasks s (t_id t) = None"
    using IH ts'(2) mk next_task_id_new [OF Cons.prems(1)] by (auto split: if_splits)
  ultimately show ?case by blast
qed simp

lemma create_loop_field:
  "(\<And>i s. f (mk i s) = g i) \<Longrightarrow> map f (fst (create_loop mk is s)) = map g is"
  by (induction "is" arbitrary: s) (auto simp: Let_def split_beta)

lemma pop_pending_loses:
  assumes "ts_inv s" "pop_pending_task s = (Some t, s')" "t_status t = TaskStatusPending"
  shows "ts_tasks s' (t_id t) = Some t \<and> t_id t \<notin> set (ts_pendingQ s')"
proof -
  from assms(2) obtain k q where "ts_pendingQ s = k # q" "ts_tasks s k = Some t"
    "s' = s\<lparr>ts_pendingQ := q\<rparr>"
    by (auto simp: pop_pending_task_def split: list.splits)
  then show ?thesis using ts_invD(3,4) [OF assms(1)] by fastforce
qed


text \<open>What a task looks like after it has been taken from a worker, or cancelled.\<close>

definition released :: "task \<Rightarrow> task" where
  "released t = t\<lparr>t_status := TaskStatusPending, t_assigned_to := []\<rparr>"

definition cancelled_at :: "unix \<Rightarrow> task \<Rightarrow> task" where
  "cancelled_at now t = t\<lparr>t_status := TaskStatusCancelled, t_completed_at := now\<rparr>"

definition satisfies :: "(task \<Rightarrow> bool) \<Rightarrow> task_store \<Rightarrow> task_id \<Rightarrow> bool" where
  "satisfies P s k \<longleftrightarrow> (case ts_tasks s k of None \<Rightarrow> False | Some t \<Rightarrow> P t)"

definition update_where ::
  "(task_id \<Rightarrow> bool) \<Rightarrow> (task \<Rightarrow> task) \<Rightarrow> (task_id \<rightharpoonup> task) \<Rightarrow> (task_id \<rightharpoonup> task)" where
  "update_where P f m = (\<lambda>k. if P k then map_option f (m k) else m k)"

lemma satisfies_queue [simp]:
  "satisfies P (enqueue k s) = satisfies P s" "satisfies P (unqueue k s) = satisfies P s"
  by (auto simp: satisfies_def)

lemma satisfies_modify:
  "satisfies P (modify_task f k s) j =
     (if j = k then satisfies (P \<circ> f) s k else satisfies P s j)"
  by (auto simp: satisfies_def split: option.split)

definition reassignable :: "unix \<Rightarrow> uuid \<Rightarrow> task_store \<Rightarrow> task_id \<Rightarrow> bool" where
  "reassignable now w = satisfies (\<lambda>t. held_by w t \<and> \<not> in_grace now t)"

definition unfinished :: "task_store \<Rightarrow> task_id \<Rightarrow> bool" where
  "unfinished = satisfies (\<lambda>t. \<not> terminal (t_status t))"

lemma reassign_loop_effect:
  fixes now w
  defines "P \<equiv> reassignable now w"
  assumes "ts_inv s" "distinct ks"
  shows "reassign_loop now w ks s =
    (length (filter (P s) ks),
     s\<lparr>ts_tasks := update_where (\<lambda>k. k \<in> set ks \<and> P s k) released (ts_tasks s),
       ts_pendingQ := ts_pendingQ s @ filter (P s) ks\<rparr>)"
  using assms(2,3)
proof (induction ks arbitrary: s)
  case Nil
  then show ?case by (simp add: update_where_def)
next
  case (Cons k ks)
  show ?case
  proof (cases "P s k")
    case False
    then have skip: "reassign_loop now w (k # ks) s = reassign_loop now w ks s"
      by (auto simp: P_def reassignable_def satisfies_def split: option.splits)
    have "update_where (\<lambda>j. j \<in> set (k # ks) \<and> P s j) f m =
        update_where (\<lambda>j. j \<in> set ks \<and> P s j) f m" for f and m :: "task_id \<rightharpoonup> task"
      using False by (auto simp: update_where_def)
    then show ?thesis using Cons False skip by simp
  next
    case True
    then obtain t where t: "ts_tasks s k = Some t" "held_by w t" "\<not> in_grace now t"
      by (auto simp: P_def reassignable_def satisfies_def split: option.splits)
    let ?s = "enqueue k (modify_task (\<lambda>_. released t) k s)"
    have id: "t_id t = k" using Cons.prems(1) t(1) ts_invD(4) by blast
    have inv: "ts_inv ?s"
      using Cons.prems(1) t by (intro ts_inv_requeue) (auto simp: released_def held_by_def)
    have P: "P ?s j = P s j" if "j \<in> set ks" for j
      using that Cons.prems(2) by (auto simp: P_def reassignable_def satisfies_modify)
    have map_eq: "update_where (\<lambda>j. j \<in> set ks \<and> P ?s j) released (ts_tasks ?s) =
        update_where (\<lambda>j. j \<in> set (k # ks) \<and> P s j) released (ts_tasks s)"
      using Cons.prems(2) True P t(1) by (auto simp: update_where_def fun_eq_iff)
    have filter_eq: "filter (P ?s) ks = filter (P s) ks"
      using P by (rule filter_cong [OF refl])
    have dist: "distinct ks" using Cons.prems(2) by simp
    have "reassign_loop now w (k # ks) s =
        (let (n, s') = reassign_loop now w ks ?s in (n + 1, s'))"
      using t id by (simp add: released_def)
    also have "\<dots> = (length (filter (P s) ks) + 1,
        ?s\<lparr>ts_tasks := update_where (\<lambda>j. j \<in> set (k # ks) \<and> P s j) released (ts_tasks s),
           ts_pendingQ := ts_pendingQ ?s @ filter (P s) ks\<rparr>)"
      unfolding Cons.IH [OF inv dist, unfolded map_eq filter_eq] by simp
    finally show ?thesis
      using True by (simp add: enqueue_def modify_task_def)
  qed
qed

lemma cancel_loop_effect:
  defines "P \<equiv> unfinished"
  assumes "ts_inv s" "distinct (map t_id ts)"
  shows "snd (cancel_loop now ts s) =
      s\<lparr>ts_tasks := update_where (\<lambda>k. k \<in> t_id ` set ts \<and> P s k) (cancelled_at now) (ts_tasks s),
        ts_pendingQ := filter (\<lambda>k. \<not> (k \<in> t_id ` set ts \<and> P s k)) (ts_pendingQ s)\<rparr> \<and>
    map Some (fst (cancel_loop now ts s)) =
      map (\<lambda>k. map_option (cancelled_at now) (ts_tasks s k)) (filter (P s) (map t_id ts))"
  using assms(2,3)
proof (induction ts arbitrary: s)
  case Nil
  then show ?case by (simp add: update_where_def)
next
  case (Cons u ts)
  let ?k = "t_id u"
  show ?case
  proof (cases "P s ?k")
    case False
    then have "cancel_task now ?k s = (None, s)"
      by (auto simp: P_def unfinished_def satisfies_def cancel_task_def split: option.splits)
    moreover have "k \<in> t_id ` set (u # ts) \<and> P s k \<longleftrightarrow> k \<in> t_id ` set ts \<and> P s k" for k
      using False by auto
    ultimately show ?thesis using Cons.IH [OF Cons.prems(1)] Cons.prems(2) False by simp
  next
    case True
    then obtain t where t: "ts_tasks s ?k = Some t" "\<not> terminal (t_status t)"
      by (auto simp: P_def unfinished_def satisfies_def split: option.splits)
    let ?s = "unqueue ?k (modify_task (\<lambda>_. cancelled_at now t) ?k s)"
    have inv: "ts_inv ?s"
      using Cons.prems(1) t(1) by (intro ts_inv_leave_queue) (auto simp: cancelled_at_def)
    have "?k \<notin> set (ts_pendingQ s)" if "t_status t \<noteq> TaskStatusPending"
      using that t status_cases active_not_queueable ts_invD(6) [OF Cons.prems(1)] by fastforce
    then have step: "cancel_task now ?k s = (Some (cancelled_at now t), ?s)"
      using t by (auto simp: cancel_task_def Let_def cancelled_at_def unqueue_def remove1_idem)
    have notin: "?k \<notin> t_id ` set ts" using Cons.prems(2) by auto
    have P: "P ?s j = P s j" if "j \<noteq> ?k" for j using that by (simp add: P_def unfinished_def satisfies_modify)
    have sel: "(k \<in> t_id ` set ts \<and> P ?s k) = (k \<in> t_id ` set ts \<and> P s k)" for k
      using notin P by metis
    have map_eq: "update_where (\<lambda>k. k \<in> t_id ` set ts \<and> P s k) (cancelled_at now) (ts_tasks ?s) =
        update_where (\<lambda>k. k \<in> t_id ` set (u # ts) \<and> P s k) (cancelled_at now) (ts_tasks s)"
      using notin True t(1) by (auto simp: update_where_def fun_eq_iff)
    have q_eq: "filter (\<lambda>k. \<not> (k \<in> t_id ` set ts \<and> P s k)) (ts_pendingQ ?s) =
        filter (\<lambda>k. \<not> (k \<in> t_id ` set (u # ts) \<and> P s k)) (ts_pendingQ s)"
      using True ts_invD(3) [OF Cons.prems(1)]
      by (auto simp: distinct_remove1_removeAll removeAll_filter_not_eq intro!: filter_cong)
    have ids: "filter (P ?s) (map t_id ts) = filter (P s) (map t_id ts)"
    proof (rule filter_cong [OF refl])
      show "P ?s k = P s k" if "k \<in> set (map t_id ts)" for k
        using that notin by (intro P) (metis set_map)
    qed
    have res: "map (\<lambda>k. map_option (cancelled_at now) (ts_tasks ?s k)) (filter (P s) (map t_id ts)) =
        map (\<lambda>k. map_option (cancelled_at now) (ts_tasks s k)) (filter (P s) (map t_id ts))"
    proof (rule map_cong [OF refl])
      fix k assume "k \<in> set (filter (P s) (map t_id ts))"
      then have "k \<noteq> ?k" using notin by (metis filter_is_subset set_map subsetD)
      then show "map_option (cancelled_at now) (ts_tasks ?s k) = map_option (cancelled_at now) (ts_tasks s k)"
        by simp
    qed
    have "distinct (map t_id ts)" using Cons.prems(2) by simp
    note IH = Cons.IH [OF inv this, unfolded sel map_eq q_eq ids res]
    have "cancel_loop now (u # ts) s =
        (cancelled_at now t # fst (cancel_loop now ts ?s), snd (cancel_loop now ts ?s))"
      by (simp add: step split_beta)
    with IH True t(1) show ?thesis by (simp add: unqueue_def modify_task_def)
  qed
qed


section \<open>The store as a source of jobs\<close>

text \<open>
  The store keeps the scheduler's contract as long as no finished task is queued. A late result
  for a task that has gone back to the queue breaks this (see the scheduler's properties).
\<close>

definition store_live :: "task_store \<Rightarrow> bool" where
  "store_live s \<longleftrightarrow> ts_inv s \<and>
     (\<forall>k \<in> set (ts_pendingQ s). \<exists>t. ts_tasks s k = Some t \<and> t_status t = TaskStatusPending)"

definition task_holder :: "task_store \<Rightarrow> (task_id \<rightharpoonup> uuid)" where
  "task_holder s k =
     (case ts_tasks s k of
        None \<Rightarrow> None
      | Some t \<Rightarrow> if active (t_status t) then Some (t_assigned_to t) else None)"

lemma store_live_head:
  assumes "store_live s" "ts_pendingQ s = k # q"
  obtains t where "ts_tasks s k = Some t" "t_status t = TaskStatusPending" "t_id t = k" "k \<notin> set q"
  using assms ts_invD(3,4) [of s] by (fastforce simp: store_live_def)

lemma assign_head:
  assumes "store_live s" "ts_pendingQ s = k # q"
  shows "\<exists>t'. assign_task now k w s =
      (Some t', s\<lparr>ts_tasks := (ts_tasks s)(k \<mapsto> t'), ts_pendingQ := q\<rparr>) \<and>
    t_id t' = k \<and> t_status t' = TaskStatusAssigned \<and> t_assigned_to t' = w"
  using assms
  by (rule store_live_head)
    (auto simp: assign_task_def Let_def modify_task_def unqueue_def assms(2))

lemma assign_head_live:
  assumes "store_live s" "ts_pendingQ s = k # q" "assign_task now k w s = (r, s')"
  shows "store_live s' \<and> ts_pendingQ s' = q \<and> task_holder s' = (task_holder s)(k \<mapsto> w)"
proof -
  have "ts_inv s'" using ts_inv_assign [of s now k w] assms by (simp add: store_live_def)
  moreover have "k \<notin> set q" using store_live_head [OF assms(1,2)] .
  ultimately show ?thesis
    using assign_head [OF assms(1,2), of now w] assms
    by (fastforce simp: store_live_def task_holder_def)
qed

lemma release_after_assign:
  assumes "store_live s" "ts_pendingQ s = k # q" "assign_task now k w s = (r, s')"
  shows "store_live (snd (reassign_task k s')) \<and> ts_pendingQ (snd (reassign_task k s')) = q @ [k] \<and>
    task_holder (snd (reassign_task k s')) = task_holder s"
proof -
  have inv: "ts_inv (snd (reassign_task k s'))"
    using ts_inv_reassign assign_head_live [OF assms] by (simp add: store_live_def)
  obtain t' where t': "s' = s\<lparr>ts_tasks := (ts_tasks s)(k \<mapsto> t'), ts_pendingQ := q\<rparr>"
    "t_status t' = TaskStatusAssigned"
    using assign_head [OF assms(1,2), of now w] assms(3) by auto
  obtain t where "ts_tasks s k = Some t" "t_status t = TaskStatusPending" "k \<notin> set q"
    using store_live_head [OF assms(1,2)] .
  then show ?thesis
    using inv t' assms(1,2)
    by (auto simp: reassign_task_def Let_def store_live_def task_holder_def fun_eq_iff)
qed

interpretation jobs: held_job_source get_pending assign_task reassign_task t_id ts_pendingQ
    store_live task_holder
proof
  fix s :: task_store and k q and now :: unix and w r s'
  assume live: "store_live s"
  show "distinct (ts_pendingQ s)" using live ts_invD(3) by (simp add: store_live_def)
  show "task_holder s k = None" if "k \<in> set (ts_pendingQ s)"
    using live that by (auto simp: store_live_def task_holder_def)
  show "get_pending s = None" if "ts_pendingQ s = []"
    using that by (simp add: get_pending_def)
  assume q: "ts_pendingQ s = k # q"
  show "\<exists>j. get_pending s = Some j \<and> t_id j = k"
    using q by (rule store_live_head [OF live]) (simp add: get_pending_def q)
  show "\<exists>j s'. assign_task now k w s = (Some j, s') \<and> ts_pendingQ s' = q \<and> store_live s'"
    using assign_head [OF live q, of now w] assign_head_live [OF live q] by blast
  show "task_holder (snd (assign_task now k w s)) = (task_holder s)(k \<mapsto> w)"
    using assign_head_live [OF live q] by (metis prod.collapse)
  show "task_holder (snd (reassign_task k (snd (assign_task now k w s)))) = task_holder s"
    using release_after_assign [OF live q] by (metis prod.collapse)
  show "ts_pendingQ (snd (reassign_task k s')) = q @ [k] \<and> store_live (snd (reassign_task k s'))"
    if "assign_task now k w s = (Some r, s')"
    using release_after_assign [OF live q that] by blast
qed

section \<open>Properties\<close>

abbreviation reachable_store :: "task_store \<Rightarrow> bool" where
  "reachable_store \<equiv> reach (\<lambda>s. s = new_task_store) ts_step"

lemma reachable_inv: "reachable_store s \<Longrightarrow> ts_inv s"
  by (rule tsm.inv_reach)

text \<open>
  C13. The store implements the abstract board: whatever operations are called, in whatever
  order, the statuses it shows follow the moves of the board (queued, assigned, running, back to
  queued, and the three ways to end), one task after the other, starting from the empty board.
\<close>

theorem store_implements_board:
  assumes "reachable_store s"
  shows "board_step\<^sup>*\<^sup>* Map.empty (board s)"
  using tsm.abs_reach [OF assms] by (induction rule: reach.induct) auto

theorem store_implements_board_witness:
  "board_step\<^sup>*\<^sup>* Map.empty (board (snd (create_task 2 ''a'' [] [443] 0 0 new_task_store)))"
proof -
  have "reachable_store new_task_store" by (rule reach_init) simp
  then have "reachable_store (snd (create_task 2 ''a'' [] [443] 0 0 new_task_store))"
    by (rule reach_step) (rule create_task_step)
  then show ?thesis by (rule store_implements_board)
qed

lemma reachable_create:
  "reachable_store s \<Longrightarrow> reachable_store (snd (create_task now name asns ports mr n s))"
  by (erule reach_step) (rule create_task_step)

lemma reachable_assign: "reachable_store s \<Longrightarrow> reachable_store (snd (assign_task now k w s))"
  by (erule reach_step) (rule step_assign)

lemma reachable_new: "reachable_store new_task_store"
  by (rule reach_init) simp



text \<open>
  C25. Whatever the store does next, a task is never lost, keeps what it was created with, and,
  once completed, failed or cancelled, is never pending, assigned or running again.
\<close>

theorem finished_task_stays_finished:
  assumes "reachable_store s" and "ts_step\<^sup>*\<^sup>* s s'" and "ts_tasks s k = Some t"
  shows "\<exists>t'. ts_tasks s' k = Some t' \<and> task_order t' = task_order t \<and>
              (terminal (t_status t) \<longrightarrow> terminal (t_status t'))"
  by (rule life_of_task [OF reachable_inv [OF assms(1)] assms(2,3)])

theorem finished_task_stays_finished_witness:
  "let s0 = snd (create_task 2 ''a'' [] [443] 0 0 new_task_store);
       s1 = snd (cancel_task 5 ''t_1'' s0); s2 = snd (reassign_task ''t_1'' s1)
   in \<exists>t'. ts_tasks s2 ''t_1'' = Some t' \<and> terminal (t_status t')"
proof -
  let ?s0 = "snd (create_task 2 ''a'' [] [443] 0 0 new_task_store)"
  let ?s1 = "snd (cancel_task 5 ''t_1'' ?s0)"
  let ?s2 = "snd (reassign_task ''t_1'' ?s1)"
  have r: "reachable_store ?s1"
    by (rule reach_step [OF reachable_create [OF reachable_new]]) (rule step_cancel)
  have "ts_step\<^sup>*\<^sup>* ?s1 ?s2" by (rule r_into_rtranclp) (rule step_reassign)
  moreover obtain t where "ts_tasks ?s1 ''t_1'' = Some t" "terminal (t_status t)"
    by (simp add: create_task_def new_task_store_def next_task_id_def fmt_d_def itoa_def
        itoa_loop_step cancel_task_def Let_def zero_task_def)
  ultimately show ?thesis
    using finished_task_stays_finished [OF r] by (fastforce simp: Let_def)
qed

text \<open>
  Assigning succeeds exactly for a pending task. After it the task belongs to that worker,
  has left the queue, and a second assignment of it, by anyone, changes nothing and returns
  nothing.
\<close>

theorem assignment_is_exclusive:
  assumes "reachable_store s" and "assign_task now k w s = (r, s')"
  shows "(r \<noteq> None \<longleftrightarrow> (\<exists>t. ts_tasks s k = Some t \<and> t_status t = TaskStatusPending)) \<and>
    (r = None \<longrightarrow> s' = s) \<and>
    (\<forall>t'. r = Some t' \<longrightarrow> ts_tasks s' k = r \<and> held_by w t' \<and> k \<notin> set (ts_pendingQ s') \<and>
       assign_task now' k w' s' = (None, s'))"
  using assms(2) ts_invD(3) [OF reachable_inv [OF assms(1)]]
  by (auto simp: assign_task_def Let_def held_by_def split: option.splits if_splits)

theorem assignment_is_exclusive_witness:
  "let s = snd (create_task 2 ''a'' [] [443] 0 0 new_task_store)
   in fst (assign_task 5 ''t_1'' ''w'' s) \<noteq> None \<and>
      fst (assign_task 6 ''t_1'' ''v'' (snd (assign_task 5 ''t_1'' ''w'' s))) = None"
proof -
  let ?s = "snd (create_task 2 ''a'' [] [443] 0 0 new_task_store)"
  have r: "reachable_store ?s" by (intro reachable_create reachable_new)
  have p: "\<exists>t. ts_tasks ?s ''t_1'' = Some t \<and> t_status t = TaskStatusPending"
    by (simp add: create_task_def new_task_store_def next_task_id_def fmt_d_def itoa_def
        itoa_loop_step Let_def)
  show ?thesis
    using assignment_is_exclusive [OF r, of 5 "''t_1''" "''w''" _ _ 6 "''v''", OF prod.collapse [symmetric]] p
    by (auto simp: Let_def)
qed


lemma satisfies_iff: "satisfies P s k \<longleftrightarrow> (\<exists>t. ts_tasks s k = Some t \<and> P t)"
  by (auto simp: satisfies_def split: option.split)

lemma set_get_by_group_id:
  "map_order ks (ts_tasks s) \<Longrightarrow> set (get_by_group_id ks g s) = {t \<in> ran (ts_tasks s). t_group_id t = g}"
  by (auto simp: get_by_group_id_def set_entries_order)

lemma ran_new_entries:
  assumes "\<forall>t \<in> set ts. m (t_id t) = None" "distinct (map t_id ts)"
  shows "ran (m ++ map_of (map (\<lambda>t. (t_id t, t)) ts)) = ran m \<union> set ts"
proof -
  let ?n = "map_of (map (\<lambda>t. (t_id t, t)) ts)"
  have dom: "dom ?n = t_id ` set ts" by (auto simp: dom_map_of_conv_image_fst image_image)
  have "ran ?n = set ts"
    using assms(2) by (subst ran_distinct) (auto simp: comp_def image_image)
  moreover have "dom m \<inter> dom ?n = {}" using assms(1) dom by auto
  ultimately show ?thesis by (simp add: ran_map_add)
qed

text \<open>Concrete stores for the witnesses: two tasks, the first held by worker \<open>w\<close>.\<close>

definition two_tasks :: task_store where
  "two_tasks = snd (create_task 3 ''b'' [] [443] 0 0 (snd (create_task 2 ''a'' [] [443] 0 0 new_task_store)))"

definition one_held :: task_store where
  "one_held = snd (assign_task 5 ''t_1'' ''w'' two_tasks)"

lemma reachable_two_tasks: "reachable_store two_tasks"
  unfolding two_tasks_def by (intro reachable_create reachable_new)

lemma reachable_one_held: "reachable_store one_held"
  unfolding one_held_def by (intro reachable_assign reachable_two_tasks)

lemmas example_ids = next_task_id_def fmt_d_def itoa_def itoa_loop_step

lemma two_tasks_simps [simp]:
  "ts_tasks two_tasks =
     [''t_1'' \<mapsto> zero_task\<lparr>t_id := ''t_1'', t_name := ''a'', t_ports := [443], t_created_at := 2\<rparr>,
      ''t_2'' \<mapsto> zero_task\<lparr>t_id := ''t_2'', t_name := ''b'', t_ports := [443], t_created_at := 3\<rparr>]"
  "ts_pendingQ two_tasks = [''t_1'', ''t_2'']" "ts_next_id two_tasks = 2"
  by (simp_all add: two_tasks_def create_task_def new_task_store_def example_ids Let_def zero_task_def)

lemma one_held_simps [simp]:
  "ts_tasks one_held =
     [''t_1'' \<mapsto> zero_task\<lparr>t_id := ''t_1'', t_name := ''a'', t_ports := [443], t_created_at := 2,
        t_status := TaskStatusAssigned, t_assigned_to := ''w'', t_assigned_at := 5,
        t_assigned_count := 1\<rparr>,
      ''t_2'' \<mapsto> zero_task\<lparr>t_id := ''t_2'', t_name := ''b'', t_ports := [443], t_created_at := 3\<rparr>]"
  "ts_pendingQ one_held = [''t_2'']" "ts_next_id one_held = 2"
  by (simp_all add: one_held_def assign_task_def Let_def zero_task_def fun_upd_twist)

text \<open>
  C30. Splitting by CIDR groups creates one task per group: the shards carry exactly the groups
  in order, are numbered from 0, have fresh identifiers, are queued in that order, leave every
  other task alone, and the group identifier finds exactly them again.
\<close>

theorem cidr_shards_roundtrip:
  assumes "reachable_store s"
    and "create_cidr_shards nano clock name asns groups ports mr s = (shards, s')"
    and "\<forall>t \<in> ran (ts_tasks s). t_group_id t \<noteq> ''g_'' @ fmt_d nano"
    and "map_order ks (ts_tasks s')"
  shows "map t_cidrs shards = groups \<and> map t_shard_index shards = map int [0..<length groups] \<and>
    (\<forall>t \<in> set shards. t_status t = TaskStatusPending \<and> t_shard_total t = int (length groups)) \<and>
    ts_tasks s \<subseteq>\<^sub>m ts_tasks s' \<and> distinct (map t_id shards) \<and>
    ts_pendingQ s' = ts_pendingQ s @ map t_id shards \<and>
    set (get_by_group_id ks (''g_'' @ fmt_d nano) s') = set shards"
proof -
  let ?g = "''g_'' @ fmt_d nano" and ?n = "length groups"
  let ?mk = "\<lambda>i. shard_task clock ?g name ports mr ?n i asns (groups ! i) (int (length (groups ! i)))"
  note inv = reachable_inv [OF assms(1)]
  have loop: "create_loop ?mk [0..<?n] s = (shards, s')"
    using assms(2) by (simp add: create_cidr_shards_def Let_def)
  have eff: "ts_pendingQ s' = ts_pendingQ s @ map t_id shards"
    "ts_tasks s' = ts_tasks s ++ map_of (map (\<lambda>t. (t_id t, t)) shards)"
    "\<forall>t \<in> set shards. ts_tasks s (t_id t) = None"
    using create_loop_effect [OF _ inv loop] by simp_all
  have "ts_inv s'" using ts_inv_create_loop [OF inv, of ?mk "[0..<?n]"] loop by simp
  then have dist: "distinct (map t_id shards)" using ts_invD(3) [of s'] eff(1) by simp
  have field: "map f shards = map g [0..<?n]" if "\<And>i s. f (?mk i s) = g i" for f :: "task \<Rightarrow> 'b" and g
    using create_loop_field [of f ?mk g "[0..<?n]" s, OF that] loop by simp
  have groups: "map t_cidrs shards = groups"
    using field [of t_cidrs "\<lambda>i. groups ! i"] by (simp add: map_nth)
  have const: "f t = c" if "t \<in> set shards" "\<And>i s. f (?mk i s) = c" for f :: "task \<Rightarrow> 'b" and c t
  proof -
    have "f t \<in> set (map f shards)" using that(1) by simp
    then show ?thesis using field [of f "\<lambda>_. c", OF that(2)] by auto
  qed
  have "ts_tasks s \<subseteq>\<^sub>m ts_tasks s'"
    unfolding eff(2) using eff(3) by (auto simp: map_le_def map_add_def dom_def split: option.splits dest!: map_of_SomeD)
  moreover have "set (get_by_group_id ks ?g s') = set shards"
    using set_get_by_group_id [OF assms(4)] assms(3) const [of _ t_group_id ?g]
      ran_new_entries [OF eff(3) dist] unfolding eff(2) by auto
  ultimately show ?thesis
    using groups dist eff(1) field [of t_shard_index int]
      const [of _ t_status TaskStatusPending] const [of _ t_shard_total "int ?n"] by auto
qed

theorem cidr_shards_roundtrip_witness:
  "let (shards, s') = create_cidr_shards 9 (\<lambda>_. 4) ''n'' [''AS1''] [[''a'', ''b''], [''c'']] [443] 0 new_task_store
   in map t_cidrs shards = [[''a'', ''b''], [''c'']] \<and>
      set (get_by_group_id [''t_1'', ''t_2''] ''g_9'' s') = set shards"
proof -
  let ?r = "create_cidr_shards 9 (\<lambda>_. 4) ''n'' [''AS1''] [[''a'', ''b''], [''c'']] [443] 0 new_task_store"
  have g: "fmt_d 9 = ''9''" by (simp add: example_ids)
  have free: "\<forall>t \<in> ran (ts_tasks new_task_store). t_group_id t \<noteq> ''g_'' @ fmt_d 9"
    by (simp add: new_task_store_def)
  have order: "map_order [''t_1'', ''t_2''] (ts_tasks (snd ?r))"
    by (auto simp: create_cidr_shards_def Let_def upt_rec map_order_def new_task_store_def
        shard_task_def example_ids split: if_splits)
  obtain ts s' where r: "?r = (ts, s')" by fastforce
  show ?thesis
    using cidr_shards_roundtrip [OF reachable_new r free] order by (simp add: r g)
qed

text \<open>
  When a worker disconnects, exactly its assigned tasks and its running tasks that started
  at least 180 seconds ago go back to the end of the queue, each once, without an owner; the
  result counts them, every other task is as before, and what the worker still holds is in its
  grace period.
\<close>

theorem disconnect_requeues_tasks:
  assumes "reachable_store s" and "map_order ks (ts_tasks s)"
    and "reassign_worker_tasks now ks w s = (n, s')"
  shows "n = card {k. reassignable now w s k} \<and>
    ts_pendingQ s' = ts_pendingQ s @ filter (reassignable now w s) ks \<and>
    (\<forall>k. ts_tasks s' k = (if reassignable now w s k then map_option released (ts_tasks s k)
                          else ts_tasks s k)) \<and>
    (\<forall>t \<in> set (get_worker_active_tasks ks w s'). in_grace now t)"
proof -
  let ?P = "reassignable now w s"
  have dom: "?P k \<Longrightarrow> k \<in> set ks" for k
    using map_orderD(2) [OF assms(2)] by (auto simp: reassignable_def satisfies_iff)
  have n: "n = length (filter ?P ks)"
    and s': "s' = s\<lparr>ts_tasks := update_where (\<lambda>k. k \<in> set ks \<and> ?P k) released (ts_tasks s),
                    ts_pendingQ := ts_pendingQ s @ filter ?P ks\<rparr>"
    using reassign_loop_effect [OF reachable_inv [OF assms(1)] map_orderD(1) [OF assms(2)], of now w]
      assms(3) by (simp_all add: reassign_worker_tasks_def)
  have "length (filter ?P ks) = card (set (filter ?P ks))"
    using distinct_card [OF distinct_filter [OF map_orderD(1) [OF assms(2)], of ?P]] by (rule sym)
  also have "set (filter ?P ks) = {k. ?P k}" using dom by auto
  finally have card: "n = card {k. ?P k}" using n by simp
  have tasks: "ts_tasks s' k = (if ?P k then map_option released (ts_tasks s k) else ts_tasks s k)" for k
    using dom by (simp add: s' update_where_def)
  have "in_grace now t" if "t \<in> set (get_worker_active_tasks ks w s')" for t
  proof -
    from that obtain k where "ts_tasks s' k = Some t" "held_by w t"
      by (auto simp: get_worker_active_tasks_def set_entries)
    then show ?thesis
      using tasks [of k]
      by (auto simp: reassignable_def satisfies_iff held_by_def released_def split: if_splits)
  qed
  then show ?thesis using card tasks s' by simp
qed


theorem disconnect_requeues_tasks_witness:
  "let (n, s') = reassign_worker_tasks 9 [''t_2'', ''t_1''] ''w'' one_held
   in n = 1 \<and> ts_pendingQ s' = [''t_2'', ''t_1'']"
proof -
  have order: "map_order [''t_2'', ''t_1''] (ts_tasks one_held)" by (auto simp: map_order_def)
  have "reassignable 9 ''w'' one_held = (\<lambda>k. k = ''t_1'')"
    by (auto simp: reassignable_def satisfies_def held_by_def in_grace_def zero_task_def fun_eq_iff)
  moreover obtain n s' where r: "reassign_worker_tasks 9 [''t_2'', ''t_1''] ''w'' one_held = (n, s')"
    by fastforce
  ultimately show ?thesis
    using disconnect_requeues_tasks [OF reachable_one_held order r] by (simp add: r)
qed

text \<open>
  Cancelling a group cancels exactly its unfinished tasks and returns them; afterwards
  every task of the group is finished and none of them that was pending is queued, while the
  tasks of other groups and their places in the queue are untouched.
\<close>

theorem cancel_group_effect:
  assumes "reachable_store s" and "map_order ks (ts_tasks s)"
    and "cancel_group now ks g s = (cs, s')"
  shows "set cs = cancelled_at now ` {t \<in> ran (ts_tasks s). t_group_id t = g \<and> \<not> terminal (t_status t)} \<and>
    (\<forall>t \<in> set (get_by_group_id ks g s'). terminal (t_status t)) \<and>
    (\<forall>k t. ts_tasks s k = Some t \<longrightarrow> t_group_id t \<noteq> g \<longrightarrow> ts_tasks s' k = Some t) \<and>
    ts_pendingQ s' =
      filter (\<lambda>k. \<not> satisfies (\<lambda>t. t_group_id t = g \<and> \<not> terminal (t_status t)) s k) (ts_pendingQ s)"
proof -
  note inv = reachable_inv [OF assms(1)]
  let ?ts = "get_by_group_id ks g s"
  let ?Q = "satisfies (\<lambda>t. t_group_id t = g \<and> \<not> terminal (t_status t)) s"
  have tasks_of: "set ?ts = {t. \<exists>k. ts_tasks s k = Some t \<and> t_group_id t = g}"
    using set_get_by_group_id [OF assms(2)] by (auto simp: ran_def)
  have "map t_id (entries ks (ts_tasks s)) = ks"
    using map_orderD(2) [OF assms(2)] ts_invD(4) [OF inv] by (intro map_key_entries) auto
  then have dist: "distinct (map t_id ?ts)"
    using map_orderD(1) [OF assms(2)] by (simp add: get_by_group_id_def distinct_map_filter)
  have sel: "(k \<in> t_id ` set ?ts \<and> unfinished s k) = ?Q k" for k
    using ts_invD(4) [OF inv] unfolding tasks_of by (force simp: unfinished_def satisfies_iff image_iff)
  note eff = cancel_loop_effect [OF inv dist, of now, unfolded sel]
  have tasks: "ts_tasks s' k = (if ?Q k then map_option (cancelled_at now) (ts_tasks s k) else ts_tasks s k)" for k
    using eff assms(3) by (simp add: cancel_group_def update_where_def)
  have "Some ` set cs = Some ` cancelled_at now ` {t \<in> ran (ts_tasks s). t_group_id t = g \<and> \<not> terminal (t_status t)}"
    (is "_ = ?R")
  proof -
    have "Some ` set cs = set (map Some cs)" by simp
    also have "\<dots> = (\<lambda>k. map_option (cancelled_at now) (ts_tasks s k)) ` {k. ?Q k}"
      using eff assms(3) sel by (auto simp: cancel_group_def)
    also have "\<dots> = ?R" by (force simp: satisfies_iff ran_def image_iff)
    finally show ?thesis .
  qed
  then have "set cs = cancelled_at now ` {t \<in> ran (ts_tasks s). t_group_id t = g \<and> \<not> terminal (t_status t)}"
    by (simp add: inj_image_eq_iff)
  moreover have "terminal (t_status t)" if "t \<in> set (get_by_group_id ks g s')" for t
  proof -
    from that obtain k where "ts_tasks s' k = Some t" "t_group_id t = g"
      by (auto simp: get_by_group_id_def set_entries)
    then show ?thesis
      using tasks [of k] by (auto simp: satisfies_iff cancelled_at_def split: if_splits)
  qed
  moreover have "ts_pendingQ s' = filter (\<lambda>k. \<not> ?Q k) (ts_pendingQ s)"
    using eff assms(3) by (simp add: cancel_group_def)
  ultimately show ?thesis using tasks by (auto simp: satisfies_iff)
qed

theorem cancel_group_effect_witness:
  "let (cs, s') = cancel_group 9 [''t_1'', ''t_2''] [] one_held
   in set cs = cancelled_at 9 ` ran (ts_tasks one_held) \<and> ts_pendingQ s' = []"
proof -
  have order: "map_order [''t_1'', ''t_2''] (ts_tasks one_held)" by (auto simp: map_order_def)
  have all: "t_group_id t = [] \<and> \<not> terminal (t_status t)" if "ts_tasks one_held k = Some t" for k t
    using that by (auto simp: zero_task_def split: if_splits)
  have eq: "{t \<in> ran (ts_tasks one_held). t_group_id t = [] \<and> \<not> terminal (t_status t)} = ran (ts_tasks one_held)"
    using all unfolding ran_def by blast
  have pend: "satisfies (\<lambda>t. t_group_id t = [] \<and> \<not> terminal (t_status t)) one_held ''t_2''"
    by (simp add: satisfies_def zero_task_def)
  obtain cs s' where r: "cancel_group 9 [''t_1'', ''t_2''] [] one_held = (cs, s')" by fastforce
  note eff = cancel_group_effect [OF reachable_one_held order r, unfolded eq]
  then have "set cs = cancelled_at 9 ` ran (ts_tasks one_held)" by (rule conjunct1)
  moreover from eff have "ts_pendingQ s' = filter (\<lambda>k. \<not> satisfies (\<lambda>t. t_group_id t = [] \<and>
      \<not> terminal (t_status t)) one_held k) (ts_pendingQ one_held)"
    by (elim conjE)
  with pend have "ts_pendingQ s' = []" by (simp only: one_held_simps filter.simps if_False not_True_eq_False)
  ultimately show ?thesis unfolding Let_def r prod.case by (rule conjI)
qed

end
