(* ===== verification/Protocol.thy ===== *)
theory Protocol
  imports Prelude
begin

text \<open>
  The JSON-RPC messages between master and worker (\<open>internal/protocol/protocol.go\<close>):
  requests, responses and errors with their constructors, the method names, and the parameter
  and result structures. A \<open>json.RawMessage\<close> is an encoded value; \<open>nil\<close> is
  \<open>None\<close>. \<open>json.Marshal\<close> is a parameter of the constructors, with \<open>None\<close> for an
  error.
\<close>

section \<open>Requests and responses\<close>

type_synonym raw = string

definition version :: string where
  "version = ''2.0''"

record request =
  rq_jsonrpc :: string
  rq_method :: string
  rq_params :: "raw option"
  rq_id :: int

record rpc_error =
  err_code :: int
  err_message :: string

record response =
  rs_jsonrpc :: string
  rs_result :: "raw option"
  rs_error :: "rpc_error option"
  rs_id :: int

definition ErrCodeParse :: int where "ErrCodeParse = - 32700"
definition ErrCodeInvalidReq :: int where "ErrCodeInvalidReq = - 32600"
definition ErrCodeMethodNotFound :: int where "ErrCodeMethodNotFound = - 32601"
definition ErrCodeInvalidParams :: int where "ErrCodeInvalidParams = - 32602"
definition ErrCodeInternal :: int where "ErrCodeInternal = - 32603"

definition new_request :: "('a \<Rightarrow> raw option) \<Rightarrow> string \<Rightarrow> 'a option \<Rightarrow> int \<Rightarrow> request option" where
  "new_request marshal method params n =
     (case params of
        None \<Rightarrow> Some \<lparr>rq_jsonrpc = version, rq_method = method, rq_params = None, rq_id = n\<rparr>
      | Some p \<Rightarrow>
          (case marshal p of
             None \<Rightarrow> None
           | Some b \<Rightarrow> Some \<lparr>rq_jsonrpc = version, rq_method = method, rq_params = Some b, rq_id = n\<rparr>))"

definition new_response :: "('a \<Rightarrow> raw option) \<Rightarrow> 'a option \<Rightarrow> int \<Rightarrow> response option" where
  "new_response marshal result n =
     (case result of
        None \<Rightarrow> Some \<lparr>rs_jsonrpc = version, rs_result = None, rs_error = None, rs_id = n\<rparr>
      | Some r \<Rightarrow>
          (case marshal r of
             None \<Rightarrow> None
           | Some b \<Rightarrow> Some \<lparr>rs_jsonrpc = version, rs_result = Some b, rs_error = None, rs_id = n\<rparr>))"

text \<open>The zero \<open>Response\<close>, which \<open>NewResponse\<close> returns beside an error.\<close>

definition zero_response :: response where
  "zero_response = \<lparr>rs_jsonrpc = [], rs_result = None, rs_error = None, rs_id = 0\<rparr>"

definition new_error_response :: "int \<Rightarrow> string \<Rightarrow> int \<Rightarrow> response" where
  "new_error_response code message n =
     \<lparr>rs_jsonrpc = version, rs_result = None,
      rs_error = Some \<lparr>err_code = code, err_message = message\<rparr>, rs_id = n\<rparr>"

section \<open>Methods\<close>

definition MethodWorkerRegister :: string where "MethodWorkerRegister = ''worker.register''"
definition MethodWorkerPull :: string where "MethodWorkerPull = ''worker.pull''"
definition MethodWorkerReport :: string where "MethodWorkerReport = ''worker.report''"
definition MethodWorkerResult :: string where "MethodWorkerResult = ''worker.result''"
definition MethodWorkerHeartbeat :: string where "MethodWorkerHeartbeat = ''worker.heartbeat''"
definition MethodWorkerPong :: string where "MethodWorkerPong = ''worker.pong''"
definition MethodMasterTaskAssign :: string where "MethodMasterTaskAssign = ''master.task_assign''"
definition MethodMasterTaskCancel :: string where "MethodMasterTaskCancel = ''master.task_cancel''"
definition MethodMasterPing :: string where "MethodMasterPing = ''master.ping''"
definition MethodMasterNotify :: string where "MethodMasterNotify = ''master.notify''"

lemmas method_defs =
  MethodWorkerRegister_def MethodWorkerPull_def MethodWorkerReport_def MethodWorkerResult_def
  MethodWorkerHeartbeat_def MethodWorkerPong_def MethodMasterTaskAssign_def
  MethodMasterTaskCancel_def MethodMasterPing_def MethodMasterNotify_def

section \<open>Parameters and results\<close>

text \<open>A \<open>float64\<close> is copied, never computed with, here: its 64 bits.\<close>

type_synonym float64 = "64 word"

record worker_capabilities =
  cpu_count :: int
  memory_mb :: int
  max_tasks :: int
  max_concurrent :: int
  max_rate :: int

record register_params =
  reg_uuid :: uuid
  reg_name :: string
  reg_capabilities :: "worker_capabilities option"

record register_result =
  rr_uuid :: uuid
  rr_token :: string

record heartbeat_params =
  hb_cpu_percent :: float64
  hb_mem_percent :: float64
  hb_disk_percent :: float64
  hb_current_task :: string
  hb_phase :: string
  hb_progress :: string

record report_params =
  rep_task_id :: string
  rep_phase :: string
  rep_progress :: string
  rep_scanned_ips :: int
  rep_total_ips :: int
  rep_hits :: int
  rep_ack_event_ids :: "string list"

record pull_params =
  pull_status :: string

record task_assign_params =
  ta_task_id :: string
  ta_asns :: "string list"
  ta_cidrs :: "string list"
  ta_ports :: "int list"
  ta_max_rate :: int
  ta_ips :: "string list"
  ta_shard_index :: int
  ta_shard_total :: int

record task_cancel_params =
  tc_task_id :: string
  tc_reason :: string

record notify_params =
  nt_level :: string
  nt_message :: string

record scan_entry =
  se_ip :: string
  se_port :: int
  se_status :: string
  se_colo :: string
  se_asn :: string
  se_delay :: int

record task_result =
  tr_task_id :: string
  tr_status :: string
  tr_hits :: int
  tr_total_ips :: int
  tr_duration :: string
  tr_results :: "scan_entry list"

end
