(* ===== verification/WorkerStore.thy ===== *)
theory WorkerStore
  imports Protocol
begin

text \<open>
  The master's table of workers and their connections
  (\<open>internal/master/worker_store.go\<close>). A \<open>SafeConn\<close> is shared between the handler that
  reads from it and the table, so connections are identifiers and their \<open>closed\<close> flags live
  in a store of their own, next to the record of the frames written so far. The function a
  \<open>SafeConn\<close> wraps (the WebSocket library's \<open>WriteMessage\<close>) is a parameter that says
  whether a write succeeds.
\<close>

section \<open>Connections\<close>

type_synonym conn_id = nat

text \<open>
  What is written: the value handed to \<open>json.Marshal\<close>, or the empty message where the code
  drops a marshalling error. Browser connections carry the dashboard's own messages, so a
  network is generic in what it carries.
\<close>

datatype frame = ReqFrame request | RespFrame response | EmptyFrame

record 'f net =
  net_closed :: "conn_id \<Rightarrow> bool"
  net_out :: "(conn_id \<times> 'f) list"

definition safe_write :: "(conn_id \<Rightarrow> 'f \<Rightarrow> bool) \<Rightarrow> conn_id \<Rightarrow> 'f \<Rightarrow> 'f net \<Rightarrow> bool \<times> 'f net" where
  "safe_write write c data n =
     (if net_closed n c then (True, n)
      else if write c data then (True, n\<lparr>net_out := net_out n @ [(c, data)]\<rparr>)
      else (False, n))"

definition safe_close :: "conn_id \<Rightarrow> 'f net \<Rightarrow> 'f net" where
  "safe_close c n = n\<lparr>net_closed := (net_closed n)(c := True)\<rparr>"

text \<open>The frames one connection has been sent, in order.\<close>

definition sent_to :: "conn_id \<Rightarrow> 'f net \<Rightarrow> 'f list" where
  "sent_to c n = map snd (filter (\<lambda>(d, f). d = c) (net_out n))"

section \<open>Workers\<close>

record worker_info =
  wi_uuid :: uuid
  wi_name :: string
  wi_status :: string
  wi_online :: bool
  wi_current_task :: string
  wi_phase :: string
  wi_progress :: string
  wi_cpu_percent :: float64
  wi_mem_percent :: float64
  wi_disk_percent :: float64
  wi_addr :: string
  wi_connected_at :: instant
  wi_last_beat :: instant
  wi_capabilities :: "worker_capabilities option"
  wi_running_tasks :: int

record worker_store =
  ws_workers :: "uuid \<rightharpoonup> worker_info"
  ws_conns :: "uuid \<rightharpoonup> conn_id"
  ws_last_beat :: "uuid \<rightharpoonup> instant"

definition new_worker_store :: worker_store where
  "new_worker_store = \<lparr>ws_workers = Map.empty, ws_conns = Map.empty, ws_last_beat = Map.empty\<rparr>"

text \<open>The composite literal of \<open>Register\<close>: the other fields are zero values.\<close>

definition fresh_worker :: "uuid \<Rightarrow> string \<Rightarrow> worker_info" where
  "fresh_worker u name =
     \<lparr>wi_uuid = u, wi_name = name, wi_status = [], wi_online = False, wi_current_task = [],
      wi_phase = [], wi_progress = [], wi_cpu_percent = 0, wi_mem_percent = 0,
      wi_disk_percent = 0, wi_addr = [], wi_connected_at = 0, wi_last_beat = 0,
      wi_capabilities = None, wi_running_tasks = 0\<rparr>"

definition register ::
  "instant \<Rightarrow> uuid \<Rightarrow> string \<Rightarrow> string \<Rightarrow> worker_capabilities option \<Rightarrow> worker_store \<Rightarrow>
   worker_info \<times> worker_store" where
  "register now u name addr caps s =
     (let base = (case ws_workers s u of None \<Rightarrow> fresh_worker u name | Some i \<Rightarrow> i);
          info = base\<lparr>wi_status := ''idle'', wi_online := True, wi_addr := addr,
                      wi_capabilities := caps, wi_running_tasks := 0,
                      wi_connected_at := now, wi_last_beat := now\<rparr>
      in (info, s\<lparr>ws_workers := (ws_workers s)(u \<mapsto> info),
                  ws_last_beat := (ws_last_beat s)(u \<mapsto> now)\<rparr>))"

definition set_conn :: "uuid \<Rightarrow> conn_id \<Rightarrow> worker_store \<Rightarrow> worker_store" where
  "set_conn u c s = s\<lparr>ws_conns := (ws_conns s)(u \<mapsto> c)\<rparr>"

definition get_conn :: "uuid \<Rightarrow> worker_store \<Rightarrow> conn_id option" where
  "get_conn u s = ws_conns s u"

text \<open>An assignment to fields of the entry of one worker, if it is known.\<close>

definition modify_worker :: "(worker_info \<Rightarrow> worker_info) \<Rightarrow> uuid \<Rightarrow> worker_store \<Rightarrow> worker_store" where
  "modify_worker f u s = s\<lparr>ws_workers := (ws_workers s)(u := map_option f (ws_workers s u))\<rparr>"

definition went_offline :: "worker_info \<Rightarrow> worker_info" where
  "went_offline i = i\<lparr>wi_online := False, wi_status := ''offline''\<rparr>"

definition disconnect :: "uuid \<Rightarrow> worker_store \<Rightarrow> 'f net \<Rightarrow> worker_store \<times> 'f net" where
  "disconnect u s n =
     (let s1 = modify_worker went_offline u s
      in case ws_conns s1 u of
           None \<Rightarrow> (s1, n)
         | Some c \<Rightarrow> (s1\<lparr>ws_conns := (ws_conns s1)(u := None)\<rparr>, safe_close c n))"

definition heartbeat :: "instant \<Rightarrow> uuid \<Rightarrow> heartbeat_params \<Rightarrow> worker_store \<Rightarrow> worker_store" where
  "heartbeat now u hb s =
     (case ws_workers s u of
        None \<Rightarrow> s
      | Some i \<Rightarrow>
          s\<lparr>ws_workers := (ws_workers s)(u \<mapsto>
              i\<lparr>wi_last_beat := now, wi_cpu_percent := hb_cpu_percent hb,
                wi_mem_percent := hb_mem_percent hb, wi_disk_percent := hb_disk_percent hb,
                wi_current_task := hb_current_task hb, wi_phase := hb_phase hb,
                wi_progress := hb_progress hb\<rparr>),
            ws_last_beat := (ws_last_beat s)(u \<mapsto> now)\<rparr>)"

definition set_worker_status :: "uuid \<Rightarrow> string \<Rightarrow> worker_store \<Rightarrow> worker_store" where
  "set_worker_status u status s = modify_worker (\<lambda>i. i\<lparr>wi_status := status\<rparr>) u s"

definition worker_progress :: "uuid \<Rightarrow> report_params \<Rightarrow> worker_store \<Rightarrow> worker_store" where
  "worker_progress u rep s =
     modify_worker (\<lambda>i. i\<lparr>wi_phase := rep_phase rep, wi_progress := rep_progress rep,
                         wi_current_task := rep_task_id rep\<rparr>) u s"

definition increment_running_tasks :: "uuid \<Rightarrow> worker_store \<Rightarrow> worker_store" where
  "increment_running_tasks u s =
     modify_worker (\<lambda>i. i\<lparr>wi_running_tasks := wi_running_tasks i + 1\<rparr>) u s"

definition decrement_running_tasks :: "uuid \<Rightarrow> worker_store \<Rightarrow> worker_store" where
  "decrement_running_tasks u s =
     modify_worker (\<lambda>i. if wi_running_tasks i > 0
                        then i\<lparr>wi_running_tasks := wi_running_tasks i - 1\<rparr> else i) u s"

definition reset_running_tasks :: "uuid \<Rightarrow> worker_store \<Rightarrow> worker_store" where
  "reset_running_tasks u s = modify_worker (\<lambda>i. i\<lparr>wi_running_tasks := 0\<rparr>) u s"

definition list_workers :: "uuid list \<Rightarrow> worker_store \<Rightarrow> worker_info list" where
  "list_workers us s = entries us (ws_workers s)"

definition get_by_uuid :: "uuid \<Rightarrow> worker_store \<Rightarrow> worker_info option" where
  "get_by_uuid u s = ws_workers s u"

text \<open>\<open>cs\<close> enumerates the keys of the connection map in iteration order.\<close>

definition get_online_uuids :: "uuid list \<Rightarrow> worker_store \<Rightarrow> uuid list" where
  "get_online_uuids cs s = filter (\<lambda>u. ws_conns s u \<noteq> None) cs"

text \<open>
  One pass of \<open>offlineDetector\<close> over the heartbeat map. The connection of a silent worker
  is deleted from the table but not closed.
\<close>

definition silent :: "instant \<Rightarrow> uuid \<Rightarrow> worker_store \<Rightarrow> bool" where
  "silent now u s \<longleftrightarrow> (case ws_last_beat s u of None \<Rightarrow> False | Some l \<Rightarrow> now - l > seconds 45)"

fun offline_scan :: "instant \<Rightarrow> uuid list \<Rightarrow> worker_store \<Rightarrow> worker_store" where
  "offline_scan now [] s = s"
| "offline_scan now (u # us) s =
     (if silent now u s \<and> (case ws_workers s u of None \<Rightarrow> False | Some i \<Rightarrow> wi_online i)
      then offline_scan now us
             ((modify_worker went_offline u s)\<lparr>ws_conns := (ws_conns s)(u := None)\<rparr>)
      else offline_scan now us s)"


section \<open>Facts about the table\<close>

lemma worker_store_simps [simp]:
  "ws_workers (modify_worker f u s) = (ws_workers s)(u := map_option f (ws_workers s u))"
  "ws_conns (modify_worker f u s) = ws_conns s"
  "ws_last_beat (modify_worker f u s) = ws_last_beat s"
  "ws_workers (set_conn u c s) = ws_workers s"
  "ws_conns (set_conn u c s) = (ws_conns s)(u \<mapsto> c)"
  "ws_last_beat (set_conn u c s) = ws_last_beat s"
  by (simp_all add: modify_worker_def set_conn_def)

lemma went_offline_simps [simp]:
  "wi_online (went_offline i) = False" "wi_uuid (went_offline i) = wi_uuid i"
  "wi_running_tasks (went_offline i) = wi_running_tasks i"
  "wi_capabilities (went_offline i) = wi_capabilities i"
  by (simp_all add: went_offline_def)

lemma register_simps:
  "ws_conns (snd (register now u name addr caps s)) = ws_conns s"
  "ws_workers (snd (register now u name addr caps s)) =
     (ws_workers s)(u \<mapsto> fst (register now u name addr caps s))"
  "wi_online (fst (register now u name addr caps s))"
  "wi_running_tasks (fst (register now u name addr caps s)) = 0"
  "ws_last_beat (snd (register now u name addr caps s)) = (ws_last_beat s)(u \<mapsto> now)"
  by (simp_all add: register_def Let_def)

text \<open>
  The invariant of the table: entries are stored under their own UUID, the load is never
  negative, and the heartbeat map knows exactly the registered workers.
\<close>

definition ws_inv :: "worker_store \<Rightarrow> bool" where
  "ws_inv s \<longleftrightarrow> dom (ws_last_beat s) = dom (ws_workers s) \<and> finite (dom (ws_workers s)) \<and>
     (\<forall>u i. ws_workers s u = Some i \<longrightarrow> wi_uuid i = u \<and> 0 \<le> wi_running_tasks i \<and>
        ws_last_beat s u = Some (wi_last_beat i))"

lemma ws_inv_new: "ws_inv new_worker_store"
  by (simp add: ws_inv_def new_worker_store_def)

lemma ws_inv_modify:
  assumes "ws_inv s" "\<And>i. wi_uuid (f i) = wi_uuid i" "\<And>i. wi_last_beat (f i) = wi_last_beat i"
    and "\<And>i. 0 \<le> wi_running_tasks i \<Longrightarrow> 0 \<le> wi_running_tasks (f i)"
  shows "ws_inv (modify_worker f u s)"
proof (cases "ws_workers s u")
  case None
  then show ?thesis using assms(1) by (simp add: modify_worker_def fun_upd_idem)
next
  case (Some i)
  then show ?thesis using assms by (auto simp: ws_inv_def)
qed

lemma ws_inv_register: "ws_inv s \<Longrightarrow> ws_inv (snd (register now u name addr caps s))"
  by (auto simp: ws_inv_def register_def Let_def fresh_worker_def split: option.split)

lemma ws_inv_set_conn: "ws_inv s \<Longrightarrow> ws_inv (set_conn u c s)"
  by (auto simp: ws_inv_def)

lemma ws_inv_conns: "ws_inv (s\<lparr>ws_conns := c\<rparr>) = ws_inv s"
  by (simp add: ws_inv_def)

lemma ws_inv_disconnect: "ws_inv s \<Longrightarrow> ws_inv (fst (disconnect u s n))"
  by (auto simp: disconnect_def Let_def ws_inv_conns went_offline_def
      intro!: ws_inv_modify split: option.split)

lemma ws_inv_heartbeat: "ws_inv s \<Longrightarrow> ws_inv (heartbeat now u hb s)"
  by (auto simp: ws_inv_def heartbeat_def split: option.split)

lemma ws_inv_load:
  "ws_inv s \<Longrightarrow> ws_inv (set_worker_status u st s)" "ws_inv s \<Longrightarrow> ws_inv (worker_progress u rep s)"
  "ws_inv s \<Longrightarrow> ws_inv (increment_running_tasks u s)"
  "ws_inv s \<Longrightarrow> ws_inv (decrement_running_tasks u s)"
  "ws_inv s \<Longrightarrow> ws_inv (reset_running_tasks u s)"
  by (auto simp: set_worker_status_def worker_progress_def increment_running_tasks_def
      decrement_running_tasks_def reset_running_tasks_def intro!: ws_inv_modify)

lemma ws_inv_offline_scan: "ws_inv s \<Longrightarrow> ws_inv (offline_scan now us s)"
proof (induction us arbitrary: s)
  case (Cons u us)
  have "ws_inv ((modify_worker went_offline u s)\<lparr>ws_conns := (ws_conns s)(u := None)\<rparr>)"
    using Cons.prems by (auto simp: ws_inv_conns went_offline_def intro!: ws_inv_modify)
  then show ?case using Cons by simp
qed simp

text \<open>What one pass of the detector does, whatever the order of the iteration.\<close>

definition timed_out :: "instant \<Rightarrow> worker_store \<Rightarrow> uuid \<Rightarrow> bool" where
  "timed_out now s u \<longleftrightarrow> silent now u s \<and> (\<exists>i. ws_workers s u = Some i \<and> wi_online i)"

lemma timed_out_test:
  "(silent now u s \<and> (case ws_workers s u of None \<Rightarrow> False | Some i \<Rightarrow> wi_online i)) = timed_out now s u"
  by (auto simp: timed_out_def split: option.splits)

lemma offline_scan_Cons:
  "offline_scan now (u # us) s =
     (if timed_out now s u
      then offline_scan now us
             ((modify_worker went_offline u s)\<lparr>ws_conns := (ws_conns s)(u := None)\<rparr>)
      else offline_scan now us s)"
  by (simp add: timed_out_test)

declare offline_scan.simps(2) [simp del]

lemma offline_scan_effect:
  assumes "distinct us"
  shows "ws_workers (offline_scan now us s) u =
      (if u \<in> set us \<and> timed_out now s u then map_option went_offline (ws_workers s u)
       else ws_workers s u) \<and>
    ws_conns (offline_scan now us s) u =
      (if u \<in> set us \<and> timed_out now s u then None else ws_conns s u) \<and>
    ws_last_beat (offline_scan now us s) = ws_last_beat s"
  using assms
proof (induction us arbitrary: s)
  case (Cons v us)
  let ?s = "(modify_worker went_offline v s)\<lparr>ws_conns := (ws_conns s)(v := None)\<rparr>"
  have other: "timed_out now ?s u = timed_out now s u" if "u \<noteq> v"
    using that by (simp add: timed_out_def silent_def)
  show ?case
  proof (cases "timed_out now s v")
    case True
    then have "offline_scan now (v # us) s = offline_scan now us ?s"
      by (simp add: offline_scan_Cons)
    with Cons.IH [of ?s] Cons.prems True other show ?thesis
      by (cases "u = v") simp_all
  next
    case False
    then have "offline_scan now (v # us) s = offline_scan now us s"
      by (simp add: offline_scan_Cons)
    with Cons.IH [of s] Cons.prems False show ?thesis by (cases "u = v") simp_all
  qed
qed simp

text \<open>
  C32. One pass of the offline detector takes exactly the online workers whose last heartbeat
  is more than 45 seconds old offline and drops their connections; afterwards no online worker
  is silent, and everyone else is untouched.
\<close>

theorem offline_detector_effect:
  assumes "ws_inv s" and "map_order us (ws_last_beat s)"
  shows "(\<forall>u i. ws_workers (offline_scan now us s) u = Some i \<longrightarrow> wi_online i \<longrightarrow>
             \<not> silent now u (offline_scan now us s)) \<and>
    (\<forall>u. ws_workers (offline_scan now us s) u =
       (if timed_out now s u then map_option went_offline (ws_workers s u) else ws_workers s u)) \<and>
    (\<forall>u. ws_conns (offline_scan now us s) u = (if timed_out now s u then None else ws_conns s u))"
proof -
  have "u \<in> set us" if "timed_out now s u" for u
    using that map_orderD(2) [OF assms(2)] by (auto simp: timed_out_def silent_def split: option.splits)
  note eff = offline_scan_effect [OF map_orderD(1) [OF assms(2)], of now s]
  have workers: "ws_workers (offline_scan now us s) u =
      (if timed_out now s u then map_option went_offline (ws_workers s u) else ws_workers s u)" for u
    using eff [of u] \<open>timed_out now s u \<Longrightarrow> u \<in> set us\<close> by simp
  have conns: "ws_conns (offline_scan now us s) u = (if timed_out now s u then None else ws_conns s u)" for u
    using eff [of u] \<open>timed_out now s u \<Longrightarrow> u \<in> set us\<close> by simp
  have "silent now u (offline_scan now us s) = silent now u s" for u
    using eff by (simp add: silent_def)
  then have "\<not> silent now u (offline_scan now us s)"
    if "ws_workers (offline_scan now us s) u = Some i" "wi_online i" for u i
    using that workers [of u] by (auto simp: timed_out_def split: if_splits)
  then show ?thesis using workers conns by blast
qed

theorem offline_detector_effect_witness:
  "let s = snd (register (seconds 60) ''b'' ''b'' [] None
             (snd (register 0 ''a'' ''a'' [] None new_worker_store)));
       s' = offline_scan (seconds 60) [''b'', ''a''] s
   in map_option wi_online (ws_workers s' ''a'') = Some False \<and>
      map_option wi_online (ws_workers s' ''b'') = Some True"
proof -
  let ?s = "snd (register (seconds 60) ''b'' ''b'' [] None
             (snd (register 0 ''a'' ''a'' [] None new_worker_store)))"
  have inv: "ws_inv ?s" by (intro ws_inv_register ws_inv_new)
  have order: "map_order [''b'', ''a''] (ws_last_beat ?s)"
    by (auto simp: map_order_def register_def new_worker_store_def Let_def)
  have a: "timed_out (seconds 60) ?s ''a''" and b: "\<not> timed_out (seconds 60) ?s ''b''"
    by (simp_all add: timed_out_def silent_def register_def new_worker_store_def Let_def)
  have on: "ws_workers ?s ''a'' \<noteq> None" "map_option wi_online (ws_workers ?s ''b'') = Some True"
    by (simp_all add: register_def Let_def)
  show ?thesis
    using offline_detector_effect [OF inv order, of "seconds 60"] a b on
    by (auto simp: Let_def)
qed

end
