(* ===== verification/Scheduler.thy ===== *)
theory Scheduler
  imports EventQueue TaskStore WorkerStore
begin

text \<open>
  The scheduler (\<open>internal/master/task_scheduler.go\<close>) over the master's shared state: the
  worker table, the task store, the event queues and the connections. A pass (\<open>Tick\<close>) is the
  sequence of its calls; concurrent handlers interleave between the calls, each call being
  atomic under its own mutex.
\<close>

section \<open>The master's state and its environment\<close>

record 'p master =
  m_workers :: worker_store
  m_tasks :: task_store
  m_events :: "'p option event_store"
  m_net :: "frame net"

text \<open>
  What the environment decides: the result of marshalling parameters, whether a frame can be
  marshalled, and whether a write to a connection succeeds.
\<close>

record 'p sched_env =
  marshal_assign :: "task_assign_params \<Rightarrow> raw option"
  marshal_event :: "'p \<Rightarrow> raw option"
  marshal_frame :: "frame \<Rightarrow> bool"
  write_conn :: "conn_id \<Rightarrow> frame \<Rightarrow> bool"

section \<open>Idle workers\<close>

definition capacity :: "worker_info \<Rightarrow> int" where
  "capacity w =
     (case wi_capabilities w of
        None \<Rightarrow> 1
      | Some c \<Rightarrow> if max_tasks c > 0 then max_tasks c else 1)"

definition is_idle :: "worker_info \<Rightarrow> bool" where
  "is_idle w \<longleftrightarrow> wi_online w \<and> wi_running_tasks w < capacity w"

definition get_idle_workers :: "uuid list \<Rightarrow> worker_store \<Rightarrow> worker_info list" where
  "get_idle_workers us s = filter is_idle (list_workers us s)"

section \<open>One pass\<close>

definition assign_params :: "task \<Rightarrow> task_assign_params" where
  "assign_params t =
     \<lparr>ta_task_id = t_id t, ta_asns = t_asns t, ta_cidrs = t_cidrs t, ta_ports = t_ports t,
      ta_max_rate = t_max_rate t, ta_ips = [], ta_shard_index = t_shard_index t,
      ta_shard_total = t_shard_total t\<rparr>"

text \<open>
  Sending the assignment: building the request, marshalling it, finding the connection and
  writing. Every failure is followed by the same \<open>ReassignTask\<close>.
\<close>

definition send_assignment :: "'p sched_env \<Rightarrow> task \<Rightarrow> uuid \<Rightarrow> 'p master \<Rightarrow> bool \<times> frame net" where
  "send_assignment env t u m =
     (case new_request (marshal_assign env) MethodMasterTaskAssign (Some (assign_params t)) 0 of
        None \<Rightarrow> (False, m_net m)
      | Some req \<Rightarrow>
          if \<not> marshal_frame env (ReqFrame req) then (False, m_net m)
          else (case get_conn u (m_workers m) of
                  None \<Rightarrow> (False, m_net m)
                | Some c \<Rightarrow> safe_write (write_conn env) c (ReqFrame req) (m_net m)))"

text \<open>
  The loop of \<open>Tick\<close>; \<open>clock i\<close> is the clock reading of round \<open>i\<close>. After a successful write
  the code also assigns \<open>CurrentTask\<close>, \<open>Status\<close>, \<open>Phase\<close> and \<open>Progress\<close> of the
  \<open>WorkerInfo\<close> that \<open>GetByUUID\<close> returns: a copy, so the table does not change.
\<close>

definition mark_busy :: "task_id \<Rightarrow> worker_info \<Rightarrow> worker_info" where
  "mark_busy k w = w\<lparr>wi_current_task := k, wi_status := ''busy'', wi_phase := ''assigned'',
                     wi_progress := ''0%''\<rparr>"

fun tick_loop :: "'p sched_env \<Rightarrow> (nat \<Rightarrow> unix) \<Rightarrow> nat \<Rightarrow> worker_info list \<Rightarrow> 'p master \<Rightarrow> 'p master" where
  "tick_loop env clock i [] m = m"
| "tick_loop env clock i (w # idle) m =
     (case get_pending (m_tasks m) of
        None \<Rightarrow> m
      | Some t \<Rightarrow>
          (case assign_task (clock i) (t_id t) (wi_uuid w) (m_tasks m) of
             (None, ts) \<Rightarrow> tick_loop env clock (Suc i) idle (m\<lparr>m_tasks := ts\<rparr>)
           | (Some _, ts) \<Rightarrow>
               let (ok, net) = send_assignment env t (wi_uuid w) (m\<lparr>m_tasks := ts\<rparr>)
               in if \<not> ok
                  then tick_loop env clock (Suc i) idle
                         (m\<lparr>m_tasks := snd (reassign_task (t_id t) ts), m_net := net\<rparr>)
                  else let copy = map_option (mark_busy (t_id t)) (get_by_uuid (wi_uuid w) (m_workers m))
                       in tick_loop env clock (Suc i) idle
                            (m\<lparr>m_tasks := ts, m_net := net,
                               m_workers := increment_running_tasks (wi_uuid w) (m_workers m)\<rparr>)))"

definition tick :: "'p sched_env \<Rightarrow> (nat \<Rightarrow> unix) \<Rightarrow> uuid list \<Rightarrow> 'p master \<Rightarrow> 'p master" where
  "tick env clock us m = tick_loop env clock 0 (get_idle_workers us (m_workers m)) m"

section \<open>Connects and disconnects\<close>

definition on_worker_disconnect :: "unix \<Rightarrow> task_id list \<Rightarrow> uuid \<Rightarrow> 'p master \<Rightarrow> 'p master" where
  "on_worker_disconnect now ks u m =
     m\<lparr>m_tasks := snd (reassign_worker_tasks now ks u (m_tasks m)),
       m_workers := reset_running_tasks u (m_workers m)\<rparr>"

text \<open>
  The flush of a reconnecting worker's queue: an event whose parameters cannot be marshalled is
  skipped, an error of the second marshalling is ignored (the empty message is written), and
  the results of the writes are ignored.
\<close>

fun flush_events :: "'p sched_env \<Rightarrow> conn_id \<Rightarrow> 'p option event list \<Rightarrow> frame net \<Rightarrow> frame net" where
  "flush_events env c [] n = n"
| "flush_events env c (e # es) n =
     (case new_request (marshal_event env) (ev_method e) (ev_params e) 0 of
        None \<Rightarrow> flush_events env c es n
      | Some req \<Rightarrow>
          let data = (if marshal_frame env (ReqFrame req) then ReqFrame req else EmptyFrame)
          in flush_events env c es (snd (safe_write (write_conn env) c data n)))"

definition on_worker_connect :: "'p sched_env \<Rightarrow> instant \<Rightarrow> uuid \<Rightarrow> 'p master \<Rightarrow> 'p master" where
  "on_worker_connect env now u m =
     (let (q, es) = get_or_create u (m_events m);
          (pending, q') = pop_pending now q;
          m' = m\<lparr>m_events := es(u \<mapsto> q')\<rparr>
      in if pending = [] then m'
         else case get_conn u (m_workers m') of
                None \<Rightarrow> m'
              | Some c \<Rightarrow> m'\<lparr>m_net := flush_events env c pending (m_net m')\<rparr>)"


section \<open>A pass is a run of the dispatch loop\<close>

text \<open>Whether the assignment of a task reaches a worker, and what is then written.\<close>

definition deliverable :: "'p sched_env \<Rightarrow> 'p master \<Rightarrow> uuid \<Rightarrow> task \<Rightarrow> bool" where
  "deliverable env m u t \<longleftrightarrow>
     (case new_request (marshal_assign env) MethodMasterTaskAssign (Some (assign_params t)) 0 of
        None \<Rightarrow> False
      | Some req \<Rightarrow> marshal_frame env (ReqFrame req) \<and>
          (case get_conn u (m_workers m) of
             None \<Rightarrow> False
           | Some c \<Rightarrow> net_closed (m_net m) c \<or> write_conn env c (ReqFrame req)))"

definition assignment_frame :: "'p sched_env \<Rightarrow> task \<Rightarrow> frame" where
  "assignment_frame env t =
     ReqFrame \<lparr>rq_jsonrpc = version, rq_method = MethodMasterTaskAssign,
       rq_params = marshal_assign env (assign_params t), rq_id = 0\<rparr>"

fun delivered_frames :: "'p sched_env \<Rightarrow> 'p master \<Rightarrow> task \<times> uuid \<Rightarrow> (conn_id \<times> frame) list" where
  "delivered_frames env m (t, u) =
     (case get_conn u (m_workers m) of
        None \<Rightarrow> []
      | Some c \<Rightarrow> if net_closed (m_net m) c then [] else [(c, assignment_frame env t)])"

lemma send_assignment_ok:
  "deliverable env m u t \<Longrightarrow> send_assignment env t u m =
     (True, (m_net m)\<lparr>net_out := net_out (m_net m) @ delivered_frames env m (t, u)\<rparr>)"
  by (auto simp: deliverable_def send_assignment_def new_request_def safe_write_def
      assignment_frame_def split: option.splits)

lemma send_assignment_fails:
  "\<not> deliverable env m u t \<Longrightarrow> send_assignment env t u m = (False, m_net m)"
  by (auto simp: deliverable_def send_assignment_def safe_write_def split: option.splits)

lemma delivery_cong:
  assumes "ws_conns (m_workers m) = ws_conns (m_workers m')"
    and "net_closed (m_net m) = net_closed (m_net m')"
  shows "deliverable env m = deliverable env m'" "delivered_frames env m = delivered_frames env m'"
  using assms by (auto simp: deliverable_def get_conn_def fun_eq_iff split: option.split)

fun sends :: "'p sched_env \<Rightarrow> (nat \<Rightarrow> unix) \<Rightarrow> 'p master \<Rightarrow> nat \<Rightarrow> worker_info list \<Rightarrow>
    (unix \<times> uuid \<times> (task \<Rightarrow> bool)) list" where
  "sends env clock m i [] = []"
| "sends env clock m i (w # idle) =
     (clock i, wi_uuid w, deliverable env m (wi_uuid w)) # sends env clock m (Suc i) idle"

lemma sends_workers [simp]:
  "map (\<lambda>(c, w, good). w) (sends env clock m i idle) = map wi_uuid idle"
  "length (sends env clock m i idle) = length idle"
  by (induction idle arbitrary: i) simp_all

abbreviation job_dispatch ::
  "(unix \<times> uuid \<times> (task \<Rightarrow> bool)) list \<Rightarrow> task_store \<Rightarrow> (task \<times> uuid) list \<times> task_store" where
  "job_dispatch \<equiv> dispatch get_pending assign_task reassign_task t_id"

definition credit :: "(task \<times> uuid) list \<Rightarrow> worker_store \<Rightarrow> worker_store" where
  "credit js = fold (\<lambda>(t, u). increment_running_tasks u) js"

lemma credit_conns [simp]: "ws_conns (credit js s) = ws_conns s"
  by (induction js arbitrary: s) (auto simp: credit_def increment_running_tasks_def)

lemma credit_Cons: "credit ((t, u) # js) s = credit js (increment_running_tasks u s)"
  by (simp add: credit_def)

text \<open>
  The tasks, the load counters and the frames written by the loop, in terms of the jobs the
  dispatch loop delivers.
\<close>

definition after_dispatch :: "'p sched_env \<Rightarrow> (task \<times> uuid) list \<Rightarrow> task_store \<Rightarrow> 'p master \<Rightarrow> 'p master" where
  "after_dispatch env js ts m =
     m\<lparr>m_tasks := ts, m_workers := credit js (m_workers m),
       m_net := (m_net m)\<lparr>net_out := net_out (m_net m) @ concat (map (delivered_frames env m) js)\<rparr>\<rparr>"

lemma tick_loop_refines:
  assumes "ws_conns (m_workers m) = ws_conns (m_workers m0)"
    and "net_closed (m_net m) = net_closed (m_net m0)"
    and "job_dispatch (sends env clock m0 i idle) (m_tasks m) = (js, ts)"
  shows "tick_loop env clock i idle m = after_dispatch env js ts m"
  using assms
proof (induction idle arbitrary: i m js ts)
  case Nil
  then show ?case by (simp add: after_dispatch_def credit_def)
next
  case (Cons w idle)
  let ?u = "wi_uuid w" and ?rest = "sends env clock m0 (Suc i) idle"
  note cong = delivery_cong [OF Cons.prems(1,2)]
  show ?case
  proof (cases "get_pending (m_tasks m)")
    case None
    then show ?thesis using Cons.prems(3) by (simp add: after_dispatch_def credit_def)
  next
    case (Some t)
    obtain r ts1 where a: "assign_task (clock i) (t_id t) ?u (m_tasks m) = (r, ts1)" by fastforce
    let ?m1 = "m\<lparr>m_tasks := ts1\<rparr>"
    have dm: "deliverable env ?m1 ?u t = deliverable env m0 ?u t"
      "delivered_frames env ?m1 = delivered_frames env m"
      using cong delivery_cong [of ?m1 m env] by simp_all
    show ?thesis
    proof (cases "r = None")
      case True
      then show ?thesis
        using Cons.IH [of ?m1 "Suc i" js ts] Cons.prems Some a dm(2) by (simp add: after_dispatch_def)
    next
      case False
      then obtain t' where r: "r = Some t'" by blast
      show ?thesis
      proof (cases "deliverable env m0 ?u t")
        case True
        obtain js' where js': "job_dispatch ?rest ts1 = (js', ts)" "js = (t, ?u) # js'"
          using Cons.prems(3) Some a r True by (auto simp: Let_def split: prod.splits)
        let ?m2 = "?m1\<lparr>m_net := (m_net m)\<lparr>net_out := net_out (m_net m) @ delivered_frames env m (t, ?u)\<rparr>,
             m_workers := increment_running_tasks ?u (m_workers m)\<rparr>"
        have "delivered_frames env ?m2 = delivered_frames env m"
          by (rule delivery_cong) (simp_all add: increment_running_tasks_def)
        moreover have "tick_loop env clock (Suc i) idle ?m2 = after_dispatch env js' ts ?m2"
          using js'(1) Cons.prems(1,2) by (intro Cons.IH) (simp_all add: increment_running_tasks_def)
        moreover have "tick_loop env clock i (w # idle) m = tick_loop env clock (Suc i) idle ?m2"
          using Some a r send_assignment_ok [of env ?m1 ?u t] dm True
          by (simp del: delivered_frames.simps)
        ultimately show ?thesis
          by (simp add: after_dispatch_def js'(2) credit_Cons)
      next
        case False
        let ?m2 = "m\<lparr>m_tasks := snd (reassign_task (t_id t) ts1)\<rparr>"
        have "tick_loop env clock i (w # idle) m = tick_loop env clock (Suc i) idle ?m2"
          using Some a r send_assignment_fails [of env ?m1 ?u t] dm False by simp
        moreover have "tick_loop env clock (Suc i) idle ?m2 = after_dispatch env js ts ?m2"
          using Cons.prems Some a r False by (intro Cons.IH) simp_all
        moreover have "delivered_frames env ?m2 = delivered_frames env m"
          by (rule delivery_cong) simp_all
        ultimately show ?thesis by (simp add: after_dispatch_def)
      qed
    qed
  qed
qed

definition tick_deliveries :: "'p sched_env \<Rightarrow> (nat \<Rightarrow> unix) \<Rightarrow> uuid list \<Rightarrow> 'p master \<Rightarrow> (task \<times> uuid) list" where
  "tick_deliveries env clock us m =
     fst (job_dispatch (sends env clock m 0 (get_idle_workers us (m_workers m))) (m_tasks m))"

lemma tick_refines:
  "tick env clock us m =
     after_dispatch env (tick_deliveries env clock us m)
       (snd (job_dispatch (sends env clock m 0 (get_idle_workers us (m_workers m))) (m_tasks m))) m"
  unfolding tick_def tick_deliveries_def by (rule tick_loop_refines) simp_all


lemma tick_tasks: "m_tasks (tick env clock us m) =
    snd (job_dispatch (sends env clock m 0 (get_idle_workers us (m_workers m))) (m_tasks m))"
  by (simp add: tick_refines after_dispatch_def)

lemma tick_dispatch_eq:
  "job_dispatch (sends env clock m 0 (get_idle_workers us (m_workers m))) (m_tasks m) =
     (tick_deliveries env clock us m, m_tasks (tick env clock us m))"
  by (simp add: tick_deliveries_def tick_tasks)

lemma sends_good:
  "(c, u, good) \<in> set (sends env clock m i idle) \<Longrightarrow> u \<in> wi_uuid ` set idle \<and> good = deliverable env m u"
  by (induction idle arbitrary: i) auto

lemma delivered_to_idle:
  assumes "(t, u) \<in> set (tick_deliveries env clock us m)"
  shows "deliverable env m u t \<and> u \<in> wi_uuid ` set (get_idle_workers us (m_workers m))"
  using dispatch_good [OF assms [unfolded tick_deliveries_def]] sends_good by fastforce

subsection \<open>The load counters\<close>

lemma credit_worker:
  "ws_workers (credit js s) u =
     map_option (\<lambda>i. i\<lparr>wi_running_tasks := wi_running_tasks i + int (count_list (map snd js) u)\<rparr>)
       (ws_workers s u)"
proof (induction js arbitrary: s)
  case Nil
  then show ?case by (simp add: credit_def option.map_ident)
next
  case (Cons p js)
  obtain t v where "p = (t, v)" by (cases p)
  then show ?case
    by (auto simp: credit_Cons Cons increment_running_tasks_def option.map_comp comp_def
        intro!: option.map_cong)
qed

lemma idle_uuids:
  assumes "ws_inv s" "map_order us (ws_workers s)"
  shows "distinct (map wi_uuid (get_idle_workers us s))"
    and "u \<in> wi_uuid ` set (get_idle_workers us s) \<longleftrightarrow> (\<exists>i. ws_workers s u = Some i \<and> is_idle i)"
proof -
  have "map wi_uuid (entries us (ws_workers s)) = us"
    using assms map_orderD(2) [OF assms(2)] by (intro map_key_entries) (auto simp: ws_inv_def)
  then show "distinct (map wi_uuid (get_idle_workers us s))"
    using map_orderD(1) [OF assms(2)] by (simp add: get_idle_workers_def list_workers_def distinct_map_filter)
  show "u \<in> wi_uuid ` set (get_idle_workers us s) \<longleftrightarrow> (\<exists>i. ws_workers s u = Some i \<and> is_idle i)"
    using assms(1) map_orderD(2) [OF assms(2)]
    by (fastforce simp: get_idle_workers_def list_workers_def set_entries ws_inv_def image_iff)
qed

lemma subseq_distinct: "subseq xs ys \<Longrightarrow> distinct ys \<Longrightarrow> distinct xs"
  by (metis distinct_nthsI subseq_conv_nths)

lemma deliveries_distinct:
  assumes "ws_inv (m_workers m)" "map_order us (ws_workers (m_workers m))"
  shows "distinct (map snd (tick_deliveries env clock us m))"
  using subseq_distinct [OF jobs.dispatch_workers] idle_uuids(1) [OF assms]
  by (simp add: tick_deliveries_def)

lemma count_list_distinct: "distinct xs \<Longrightarrow> count_list xs x = (if x \<in> set xs then 1 else 0)"
  by (induction xs) auto

subsection \<open>A finished task at the head of the queue\<close>

definition blocked_by :: "task_id \<Rightarrow> task_store \<Rightarrow> bool" where
  "blocked_by k s \<longleftrightarrow> (\<exists>q t. ts_pendingQ s = k # q \<and> ts_tasks s k = Some t \<and> terminal (t_status t))"

lemma tick_loop_blocked:
  "ts_inv (m_tasks m) \<Longrightarrow> blocked_by k (m_tasks m) \<Longrightarrow> tick_loop env clock i idle m = m"
proof (induction idle arbitrary: i)
  case (Cons w idle)
  then obtain t where t: "get_pending (m_tasks m) = Some t" "ts_tasks (m_tasks m) k = Some t"
    "terminal (t_status t)" by (auto simp: blocked_by_def get_pending_def)
  moreover have "t_id t = k" using Cons.prems(1) t(2) by (rule ts_invD(4))
  ultimately have "assign_task (clock i) (t_id t) (wi_uuid w) (m_tasks m) = (None, m_tasks m)"
    by (auto simp: assign_task_def)
  then show ?case using Cons t(1) by simp
qed simp

lemma reassign_loop_appends: "\<exists>xs. ts_pendingQ (snd (reassign_loop now w ks s)) = ts_pendingQ s @ xs"
proof (induction ks arbitrary: s)
  case (Cons k ks)
  show ?case
  proof (cases "ts_tasks s k")
    case (Some t)
    let ?s = "enqueue (t_id t) (modify_task (\<lambda>_. t\<lparr>t_status := TaskStatusPending, t_assigned_to := []\<rparr>) k s)"
    obtain xs where "ts_pendingQ (snd (reassign_loop now w ks ?s)) = ts_pendingQ s @ t_id t # xs"
      using Cons [of ?s] by auto
    then show ?thesis using Some Cons [of s] by (auto simp: Let_def split_beta)
  qed (use Cons in simp)
qed simp

lemma blocked_step:
  assumes "ts_step s s'" "ts_inv s" "blocked_by k s"
  shows "blocked_by k s'"
proof -
  from assms(3) obtain q t where q: "ts_pendingQ s = k # q" and t: "ts_tasks s k = Some t" "terminal (t_status t)"
    by (auto simp: blocked_by_def)
  have "\<exists>q'. ts_pendingQ s' = k # q'"
    using assms(1) q t
  proof (induction rule: ts_step.induct)
    case (step_reassign_worker s now ks w)
    then show ?case using reassign_loop_appends [of now w ks s] by (auto simp: reassign_worker_tasks_def)
  qed (auto simp: assign_task_def start_task_def update_progress_def complete_task_def
      cancel_task_def fail_task_def reassign_task_def Let_def split: option.split)
  then show ?thesis
    using life_of_task [OF assms(2) _ t(1), of s'] assms(1) t(2) by (auto simp: blocked_by_def)
qed

lemma blocked_steps:
  "ts_step\<^sup>*\<^sup>* s s' \<Longrightarrow> ts_inv s \<Longrightarrow> blocked_by k s \<Longrightarrow> blocked_by k s'"
  by (induction rule: rtranclp_induct) (auto intro: blocked_step ts_inv_steps)


section \<open>Properties\<close>

text \<open>
  A concrete master for the witnesses: the two queued tasks of \<open>two_tasks\<close> and one registered
  worker whose connection accepts every frame.
\<close>

definition demo_env :: "unit sched_env" where
  "demo_env = \<lparr>marshal_assign = (\<lambda>_. Some ''p''), marshal_event = (\<lambda>_. Some ''e''),
               marshal_frame = (\<lambda>_. True), write_conn = (\<lambda>_ _. True)\<rparr>"

definition demo_workers :: worker_store where
  "demo_workers = set_conn ''w'' 7 (snd (register 0 ''w'' ''w'' [] None new_worker_store))"

definition demo_master :: "task_store \<Rightarrow> unit master" where
  "demo_master ts = \<lparr>m_workers = demo_workers, m_tasks = ts, m_events = Map.empty,
                     m_net = \<lparr>net_closed = (\<lambda>_. False), net_out = []\<rparr>\<rparr>"

lemma demo_simps [simp]:
  "m_workers (demo_master ts) = demo_workers" "m_tasks (demo_master ts) = ts"
  "ws_conns demo_workers = [''w'' \<mapsto> 7]" "dom (ws_workers demo_workers) = {''w''}"
  "ws_inv demo_workers" "map_order [''w''] (ws_workers demo_workers)"
  "map wi_uuid (get_idle_workers [''w''] demo_workers) = [''w'']"
  "map_option wi_running_tasks (ws_workers demo_workers ''w'') = Some 0"
  "deliverable demo_env (demo_master ts) ''w'' t"
proof -
  show "ws_inv demo_workers"
    unfolding demo_workers_def by (intro ws_inv_set_conn ws_inv_register ws_inv_new)
qed (auto simp: demo_master_def demo_workers_def register_simps
    map_order_def new_worker_store_def register_def Let_def get_idle_workers_def
    list_workers_def entries_Cons fresh_worker_def is_idle_def capacity_def deliverable_def
    new_request_def get_conn_def demo_env_def)

lemma store_live_two_tasks: "store_live two_tasks"
  using reachable_inv [OF reachable_two_tasks] by (simp add: store_live_def zero_task_def)

text \<open>
  C5. A pass never loses work, whatever fails on the way: every task that was queued is either
  delivered to exactly one worker, which then holds it, or still queued; a delivered task had
  its assignment frame accepted by the connection of an idle worker; holders of other tasks
  do not change, and nothing but those frames is written.
\<close>

theorem tick_conserves_tasks:
  fixes m :: "'d master" and env :: "'d sched_env" and clock :: "nat \<Rightarrow> instant" and us :: "uuid list"
  defines "js \<equiv> tick_deliveries env clock us m" and "m' \<equiv> tick env clock us m"
  assumes live: "store_live (m_tasks m)"
  shows "store_live (m_tasks m') \<and>
    mset (ts_pendingQ (m_tasks m)) = mset (map (t_id \<circ> fst) js) + mset (ts_pendingQ (m_tasks m')) \<and>
    task_holder (m_tasks m') = task_holder (m_tasks m) ++ map_of (map (\<lambda>(t, u). (t_id t, u)) js) \<and>
    (\<forall>(t, u) \<in> set js. deliverable env m u t \<and> u \<in> wi_uuid ` set (get_idle_workers us (m_workers m))) \<and>
    net_out (m_net m') = net_out (m_net m) @ concat (map (delivered_frames env m) js)"
  using jobs.dispatch_conserves [OF live tick_dispatch_eq]
    jobs.dispatch_holders [OF live tick_dispatch_eq] delivered_to_idle
  unfolding js_def m'_def by (fastforce simp: tick_refines after_dispatch_def)

theorem tick_conserves_tasks_witness:
  "let m = demo_master two_tasks; m' = tick demo_env (\<lambda>_. 5) [''w''] m
   in mset (ts_pendingQ two_tasks) =
        mset (map (t_id \<circ> fst) (tick_deliveries demo_env (\<lambda>_. 5) [''w''] m)) +
        mset (ts_pendingQ (m_tasks m'))"
  using tick_conserves_tasks [of "demo_master two_tasks"] store_live_two_tasks
  by (simp add: Let_def)



text \<open>
  C24. A pass respects the hardware limits: only online workers below their limit are given a
  task, at most one each, and the load counter of exactly those goes up by one, so no worker
  is pushed over its limit. Nothing else of a worker's entry changes: the assignments that
  should mark the worker busy are made to a copy.
\<close>

theorem tick_respects_capacity:
  assumes "ws_inv (m_workers m)" and "map_order us (ws_workers (m_workers m))"
    and "ws_workers (m_workers m) u = Some i"
  shows "ws_workers (m_workers (tick env clock us m)) u =
      Some (i\<lparr>wi_running_tasks := wi_running_tasks i +
               (if u \<in> snd ` set (tick_deliveries env clock us m) then 1 else 0)\<rparr>) \<and>
    (u \<in> snd ` set (tick_deliveries env clock us m) \<longrightarrow>
       wi_online i \<and> wi_running_tasks i + 1 \<le> capacity i)"
proof -
  let ?js = "tick_deliveries env clock us m"
  have "is_idle i" if "u \<in> snd ` set ?js"
    using that delivered_to_idle idle_uuids(2) [OF assms(1,2), of u] assms(3) by fastforce
  then show ?thesis
    using credit_worker [of ?js "m_workers m" u] assms(3)
      count_list_distinct [OF deliveries_distinct [OF assms(1,2), of env clock], of u]
    by (cases "u \<in> snd ` set ?js") (simp_all add: tick_refines after_dispatch_def is_idle_def)
qed

theorem tick_respects_capacity_witness:
  "\<exists>i. ws_workers demo_workers ''w'' = Some i \<and>
     wi_running_tasks (the (ws_workers (m_workers (tick demo_env (\<lambda>_. 5) [''w''] (demo_master two_tasks))) ''w'')) \<le> 1"
proof -
  obtain i where i: "ws_workers demo_workers ''w'' = Some i" "wi_running_tasks i = 0"
    using demo_simps(8) by (auto simp del: demo_simps)
  show ?thesis
    using tick_respects_capacity [of "demo_master two_tasks" "[''w'']" "''w''" i demo_env "\<lambda>_. 5"] i
    by simp
qed

text \<open>
  C9. A result that arrives for a task which is back at the head of the queue (its worker was
  disconnected and the task requeued) stops dispatching for good: after it, whatever the store
  does, every scheduling pass leaves the master exactly as it was, although other tasks may be
  pending and workers idle. \<open>CompleteTask\<close> does not remove the identifier from the queue and
  \<open>Tick\<close> never skips a head that cannot be assigned.
\<close>

theorem late_result_blocks_dispatch:
  assumes "reachable_store s" and "ts_pendingQ s = k # q"
    and "ts_step\<^sup>*\<^sup>* (snd (complete_task now k hits s)) s'"
    and "m_tasks m = s'"
  shows "tick env clock us m = m"
proof -
  note inv = reachable_inv [OF assms(1)]
  obtain t where t: "ts_tasks s k = Some t" using ts_invD(6) [OF inv, of k] assms(2) by auto
  let ?s1 = "snd (complete_task now k hits s)"
  have "blocked_by k ?s1"
    using t assms(2) by (simp add: blocked_by_def complete_task_def Let_def)
  then have "blocked_by k s'" and "ts_inv s'"
    using blocked_steps [OF assms(3)] ts_inv_steps [OF assms(3)] ts_inv_complete [OF inv] by blast+
  then show ?thesis
    using tick_loop_blocked [of m k] assms(4) by (simp add: tick_def)
qed

text \<open>
  In the witness two tasks are queued and a worker is idle; the result of the first task
  arrives, and the second task is never dispatched.
\<close>

theorem late_result_blocks_dispatch_witness:
  "\<exists>s s'. reachable_store s \<and> ts_pendingQ s = [''t_1'', ''t_2''] \<and>
     s' = snd (complete_task 9 ''t_1'' 3 s) \<and> ts_pendingQ s' = [''t_1'', ''t_2''] \<and>
     map_option t_status (ts_tasks s' ''t_2'') = Some TaskStatusPending \<and>
     get_idle_workers [''w''] demo_workers \<noteq> [] \<and>
     tick demo_env (\<lambda>_. 5) [''w''] (demo_master s') = demo_master s'"
proof -
  let ?s = two_tasks
  let ?s' = "snd (complete_task 9 ''t_1'' 3 ?s)"
  have "tick demo_env (\<lambda>_. 5) [''w''] (demo_master ?s') = demo_master ?s'"
    by (rule late_result_blocks_dispatch [OF reachable_two_tasks, of "''t_1''" "[''t_2'']" 9 3 ?s'])
      simp_all
  moreover have "ts_pendingQ ?s' = [''t_1'', ''t_2'']"
    "map_option t_status (ts_tasks ?s' ''t_2'') = Some TaskStatusPending"
    by (simp_all add: complete_task_def Let_def zero_task_def)
  moreover have "get_idle_workers [''w''] demo_workers \<noteq> []"
    using demo_simps(7) by force
  ultimately show ?thesis using reachable_two_tasks by (intro exI [of _ ?s] exI [of _ ?s']) simp
qed

end
