(* ===== verification/Dashboard.thy ===== *)
theory Dashboard
  imports TaskStore WorkerStore
begin

text \<open>
  The browser side of the master (\<open>internal/master/dashboard.go\<close>): the set of connected
  browsers and the messages they are sent. Browsers have connections of their own; marshalling
  and the WebSocket writes are parameters.
\<close>

section \<open>Messages and clients\<close>

text \<open>The JSON objects, by their \<open>type\<close> field.\<close>

datatype dash_msg =
    Init "uuid \<rightharpoonup> worker_info" "task_id \<rightharpoonup> task"
  | WorkerUpdate worker_info
  | WorkerOnline worker_info
  | WorkerOffline uuid
  | TaskUpdate task
  | TaskCompleted task
  | TaskCreated task
  | EmptyMsg

fun dash_type :: "dash_msg \<Rightarrow> string" where
  "dash_type (Init ws ts) = ''init''"
| "dash_type (WorkerUpdate w) = ''worker_update''"
| "dash_type (WorkerOnline w) = ''worker_online''"
| "dash_type (WorkerOffline u) = ''worker_offline''"
| "dash_type (TaskUpdate t) = ''task_update''"
| "dash_type (TaskCompleted t) = ''task_completed''"
| "dash_type (TaskCreated t) = ''task_created''"
| "dash_type EmptyMsg = []"

record dashboard =
  db_clients :: "conn_id set"
  db_net :: "dash_msg net"

definition new_dashboard :: "dash_msg net \<Rightarrow> dashboard" where
  "new_dashboard n = \<lparr>db_clients = {}, db_net = n\<rparr>"

record dash_env =
  marshal_msg :: "dash_msg \<Rightarrow> bool"
  write_browser :: "conn_id \<Rightarrow> dash_msg \<Rightarrow> bool"

section \<open>Broadcasts\<close>

text \<open>\<open>cs\<close> enumerates the clients in iteration order; the results of the writes are ignored.\<close>

fun broadcast_loop :: "dash_env \<Rightarrow> dash_msg \<Rightarrow> conn_id list \<Rightarrow> dash_msg net \<Rightarrow> dash_msg net" where
  "broadcast_loop env v [] n = n"
| "broadcast_loop env v (c # cs) n = broadcast_loop env v cs (snd (safe_write (write_browser env) c v n))"

definition broadcast :: "dash_env \<Rightarrow> conn_id list \<Rightarrow> dash_msg \<Rightarrow> dashboard \<Rightarrow> dashboard" where
  "broadcast env cs v d =
     (if \<not> marshal_msg env v then d else d\<lparr>db_net := broadcast_loop env v cs (db_net d)\<rparr>)"

text \<open>Both lists are indexed again, the later of two entries with one key winning.\<close>

definition init_msg :: "uuid list \<Rightarrow> task_id list \<Rightarrow> worker_store \<Rightarrow> task_store \<Rightarrow> dash_msg" where
  "init_msg us ks ws ts =
     Init (map_of (rev (map (\<lambda>w. (wi_uuid w, w)) (list_workers us ws))))
          (map_of (rev (map (\<lambda>t. (t_id t, t)) (list_tasks ks ts))))"

definition send_init ::
  "dash_env \<Rightarrow> uuid list \<Rightarrow> task_id list \<Rightarrow> worker_store \<Rightarrow> task_store \<Rightarrow> conn_id \<Rightarrow> dashboard \<Rightarrow> dashboard" where
  "send_init env us ks ws ts c d =
     (let msg = init_msg us ks ws ts;
          data = (if marshal_msg env msg then msg else EmptyMsg)
      in d\<lparr>db_net := snd (safe_write (write_browser env) c data (db_net d))\<rparr>)"

definition browser_connect ::
  "dash_env \<Rightarrow> uuid list \<Rightarrow> task_id list \<Rightarrow> worker_store \<Rightarrow> task_store \<Rightarrow> conn_id \<Rightarrow> dashboard \<Rightarrow> dashboard" where
  "browser_connect env us ks ws ts c d =
     send_init env us ks ws ts c (d\<lparr>db_clients := insert c (db_clients d)\<rparr>)"

definition browser_gone :: "conn_id \<Rightarrow> dashboard \<Rightarrow> dashboard" where
  "browser_gone c d = d\<lparr>db_clients := db_clients d - {c}, db_net := safe_close c (db_net d)\<rparr>"

section \<open>What a browser sees\<close>

lemma safe_write_sent:
  "sent_to d (snd (safe_write write c v n)) =
     sent_to d n @ (if d = c \<and> \<not> net_closed n c \<and> write c v then [v] else [])"
  by (simp add: safe_write_def sent_to_def)

lemma safe_write_closed [simp]: "net_closed (snd (safe_write write c v n)) = net_closed n"
  by (simp add: safe_write_def)

lemma broadcast_loop_sent:
  "distinct cs \<Longrightarrow> sent_to d (broadcast_loop env v cs n) =
     sent_to d n @ (if d \<in> set cs \<and> \<not> net_closed n d \<and> write_browser env d v then [v] else [])"
  by (induction cs arbitrary: n) (auto simp: safe_write_sent)

lemma init_msg_complete:
  assumes "ws_inv ws" "map_order us (ws_workers ws)" "ts_inv ts" "map_order ks (ts_tasks ts)"
  shows "init_msg us ks ws ts = Init (ws_workers ws) (ts_tasks ts)"
proof -
  have "map_of (rev (map (\<lambda>w. (wi_uuid w, w)) (entries us (ws_workers ws)))) = ws_workers ws"
    using assms(1) by (intro map_of_entries [OF assms(2)]) (simp add: ws_inv_def)
  moreover have "map_of (rev (map (\<lambda>t. (t_id t, t)) (entries ks (ts_tasks ts)))) = ts_tasks ts"
    using ts_invD(4) [OF assms(3)] by (intro map_of_entries [OF assms(4)])
  ultimately show ?thesis
    by (simp add: init_msg_def list_workers_def list_tasks_def)
qed

text \<open>A run of broadcasts, each with its own iteration order.\<close>

definition broadcasts :: "dash_env \<Rightarrow> (conn_id list \<times> dash_msg) list \<Rightarrow> dashboard \<Rightarrow> dashboard" where
  "broadcasts env bs = fold (\<lambda>(cs, v). broadcast env cs v) bs"

definition reaches :: "dash_env \<Rightarrow> conn_id \<Rightarrow> (conn_id list \<times> dash_msg) list \<Rightarrow> bool" where
  "reaches env c bs \<longleftrightarrow>
     (\<forall>(cs, v) \<in> set bs. marshal_msg env v \<and> distinct cs \<and> c \<in> set cs \<and> write_browser env c v)"

lemma broadcast_loop_closed [simp]: "net_closed (broadcast_loop env v cs n) = net_closed n"
  by (induction cs arbitrary: n) simp_all

lemma broadcasts_sent:
  assumes "reaches env c bs" "\<not> net_closed (db_net d) c"
  shows "sent_to c (db_net (broadcasts env bs d)) = sent_to c (db_net d) @ map snd bs \<and>
    net_closed (db_net (broadcasts env bs d)) = net_closed (db_net d)"
  using assms
proof (induction bs arbitrary: d)
  case (Cons b bs)
  obtain cs v where b: "b = (cs, v)" by fastforce
  show ?case
    using Cons.IH [of "broadcast env cs v d"] Cons.prems
    by (auto simp: b broadcasts_def reaches_def broadcast_def broadcast_loop_sent)
qed (simp add: broadcasts_def)

lemma send_init_sent:
  assumes "marshal_msg env (init_msg us ks ws ts)" "write_browser env c (init_msg us ks ws ts)"
    "\<not> net_closed (db_net d) c"
  shows "sent_to c (db_net (send_init env us ks ws ts c d)) = sent_to c (db_net d) @ [init_msg us ks ws ts]"
    "net_closed (db_net (send_init env us ks ws ts c d)) = net_closed (db_net d)"
  using assms by (simp_all add: send_init_def Let_def safe_write_sent)



end
