(* ===== verification/Handler.thy ===== *)
theory Handler
  imports Scheduler Dashboard
begin

text \<open>
  The master's side of a worker connection (\<open>internal/master/handler.go\<close>): the read loop,
  the dispatch on the method and one function per method, over the worker table, the task
  store, the scheduler and the dashboard. JSON decoding and encoding are parameters; the clock
  readings and the iteration orders of one message are a record of choices.
\<close>

section \<open>The hub and its environment\<close>

record 'p hub =
  hub_master :: "'p master"
  hub_dash :: "dashboard option"

record conn_state =
  cs_uuid :: uuid
  cs_name :: string

definition new_conn :: conn_state where
  "new_conn = \<lparr>cs_uuid = [], cs_name = []\<rparr>"

record 'p handler_env =
  he_sched :: "'p sched_env"
  he_dash :: dash_env
  parse_request :: "raw \<Rightarrow> request option"
  decode_register :: "raw option \<Rightarrow> register_params option"
  decode_heartbeat :: "raw option \<Rightarrow> heartbeat_params option"
  decode_report :: "raw option \<Rightarrow> report_params option"
  decode_result :: "raw option \<Rightarrow> task_result option"
  marshal_register :: "register_result \<Rightarrow> raw option"
  marshal_strings :: "(string \<times> string) list \<Rightarrow> raw option"

record choices =
  ch_now :: instant
  ch_unix :: unix
  ch_clock :: "nat \<Rightarrow> unix"
  ch_workers :: "uuid list"
  ch_tasks :: "task_id list"
  ch_clients :: "conn_id list"
  ch_clients2 :: "conn_id list"

definition on_master :: "('p master \<Rightarrow> 'p master) \<Rightarrow> 'p hub \<Rightarrow> 'p hub" where
  "on_master f h = h\<lparr>hub_master := f (hub_master h)\<rparr>"

definition on_workers :: "(worker_store \<Rightarrow> worker_store) \<Rightarrow> 'p hub \<Rightarrow> 'p hub" where
  "on_workers f = on_master (\<lambda>m. m\<lparr>m_workers := f (m_workers m)\<rparr>)"

definition on_tasks :: "(task_store \<Rightarrow> task_store) \<Rightarrow> 'p hub \<Rightarrow> 'p hub" where
  "on_tasks f = on_master (\<lambda>m. m\<lparr>m_tasks := f (m_tasks m)\<rparr>)"

abbreviation hub_workers :: "'p hub \<Rightarrow> worker_store" where
  "hub_workers h \<equiv> m_workers (hub_master h)"

abbreviation hub_tasks :: "'p hub \<Rightarrow> task_store" where
  "hub_tasks h \<equiv> m_tasks (hub_master h)"

abbreviation hub_net :: "'p hub \<Rightarrow> frame net" where
  "hub_net h \<equiv> m_net (hub_master h)"

text \<open>A broadcast, when there is a dashboard.\<close>

definition notify :: "'p handler_env \<Rightarrow> conn_id list \<Rightarrow> dash_msg \<Rightarrow> 'p hub \<Rightarrow> 'p hub" where
  "notify env cs v h = h\<lparr>hub_dash := map_option (broadcast (he_dash env) cs v) (hub_dash h)\<rparr>"

section \<open>Answering\<close>

text \<open>
  \<open>sendJSON\<close> calls \<open>Write\<close> on the connection it is given; on a nil connection that is a
  nil dereference, after the marshalling has succeeded.
\<close>

definition send_json :: "'p handler_env \<Rightarrow> conn_id option \<Rightarrow> frame \<Rightarrow> 'p hub \<Rightarrow> 'p hub outcome" where
  "send_json env conn v h =
     (if \<not> marshal_frame (he_sched env) v then Returns h
      else case conn of
             None \<Rightarrow> Panics h
           | Some c \<Rightarrow> Returns (on_master (\<lambda>m. m\<lparr>m_net :=
               snd (safe_write (write_conn (he_sched env)) c v (m_net m))\<rparr>) h))"

text \<open>\<open>resp, _ := NewResponse(...)\<close>: on an error the zero response is sent.\<close>

definition response_to :: "('a \<Rightarrow> raw option) \<Rightarrow> 'a \<Rightarrow> int \<Rightarrow> frame" where
  "response_to marshal r n =
     RespFrame (case new_response marshal (Some r) n of None \<Rightarrow> zero_response | Some resp \<Rightarrow> resp)"

section \<open>One function per method\<close>

definition handle_register ::
  "'p handler_env \<Rightarrow> choices \<Rightarrow> conn_id \<Rightarrow> request \<Rightarrow> conn_state \<Rightarrow> 'p hub \<Rightarrow> conn_state \<times> 'p hub outcome" where
  "handle_register env ch c req cs h =
     (case decode_register env (rq_params req) of
        None \<Rightarrow> (cs, send_json env (Some c)
                 (RespFrame (new_error_response ErrCodeInvalidParams ''Invalid register params'' (rq_id req))) h)
      | Some p0 \<Rightarrow>
          let p = (if reg_uuid p0 = [] then p0\<lparr>reg_uuid := reg_name p0\<rparr> else p0);
              (info, ws) = register (ch_now ch) (reg_uuid p) (reg_name p) [] (reg_capabilities p) (hub_workers h);
              cs' = \<lparr>cs_uuid = reg_uuid p, cs_name = reg_name p\<rparr>;
              h1 = on_workers (\<lambda>_. set_conn (reg_uuid p) c ws) h;
              h2 = on_master (on_worker_connect (he_sched env) (ch_now ch) (reg_uuid p)) h1;
              h3 = notify env (ch_clients ch) (WorkerOnline info) h2
          in (cs', send_json env (Some c)
                (response_to (marshal_register env) \<lparr>rr_uuid = wi_uuid info, rr_token = []\<rparr> (rq_id req)) h3))"

definition handle_heartbeat :: "'p handler_env \<Rightarrow> choices \<Rightarrow> request \<Rightarrow> uuid \<Rightarrow> 'p hub \<Rightarrow> 'p hub" where
  "handle_heartbeat env ch req u h =
     (if u = [] then h
      else case decode_heartbeat env (rq_params req) of
             None \<Rightarrow> h
           | Some p \<Rightarrow> on_workers (heartbeat (ch_now ch) u p) h)"

definition handle_report :: "'p handler_env \<Rightarrow> choices \<Rightarrow> request \<Rightarrow> uuid \<Rightarrow> 'p hub \<Rightarrow> 'p hub" where
  "handle_report env ch req u h =
     (if u = [] then h
      else case decode_report env (rq_params req) of
             None \<Rightarrow> h
           | Some p \<Rightarrow>
               let h1 = on_workers (worker_progress u p) h;
                   h2 = on_tasks (update_progress (rep_task_id p) (rep_phase p) (rep_progress p)
                                    (rep_scanned_ips p) (rep_total_ips p) (rep_hits p)) h1;
                   h3 = (case get_by_id (rep_task_id p) (hub_tasks h2) of
                           None \<Rightarrow> h2 | Some t \<Rightarrow> notify env (ch_clients ch) (TaskUpdate t) h2)
               in (case get_by_uuid u (hub_workers h3) of
                     None \<Rightarrow> h3 | Some w \<Rightarrow> notify env (ch_clients2 ch) (WorkerUpdate w) h3))"

definition handle_result :: "'p handler_env \<Rightarrow> choices \<Rightarrow> request \<Rightarrow> uuid \<Rightarrow> 'p hub \<Rightarrow> 'p hub outcome" where
  "handle_result env ch req u h =
     (if u = [] then Returns h
      else case decode_result env (rq_params req) of
             None \<Rightarrow> Returns h
           | Some p \<Rightarrow>
               let h1 = on_tasks (\<lambda>ts. snd (if tr_status p = ''completed''
                                            then complete_task (ch_unix ch) (tr_task_id p) (tr_hits p) ts
                                            else fail_task (ch_unix ch) (tr_task_id p) ts)) h;
                   h2 = (case get_by_id (tr_task_id p) (hub_tasks h1) of
                           None \<Rightarrow> h1
                         | Some t \<Rightarrow> notify env (ch_clients ch)
                             (if status_string (t_status t) = ''completed'' then TaskCompleted t else TaskUpdate t) h1);
                   h3 = on_workers (decrement_running_tasks u) h2
               in send_json env (get_conn u (hub_workers h3))
                    (response_to (marshal_strings env) [(''ack'', ''ok'')] (rq_id req)) h3)"

definition handle_pull :: "'p handler_env \<Rightarrow> choices \<Rightarrow> conn_id \<Rightarrow> request \<Rightarrow> uuid \<Rightarrow> 'p hub \<Rightarrow> 'p hub outcome" where
  "handle_pull env ch c req u h =
     (if u = [] then Returns h
      else map_outcome (on_master (tick (he_sched env) (ch_clock ch) (ch_workers ch)))
             (send_json env (Some c) (response_to (marshal_strings env) [(''status'', ''idle'')] (rq_id req))
               (on_workers (set_worker_status u ''idle'') h)))"

definition handle_message ::
  "'p handler_env \<Rightarrow> choices \<Rightarrow> conn_id \<Rightarrow> request \<Rightarrow> conn_state \<Rightarrow> 'p hub \<Rightarrow> conn_state \<times> 'p hub outcome" where
  "handle_message env ch c req cs h =
     (if rq_method req = MethodWorkerRegister then handle_register env ch c req cs h
      else if rq_method req = MethodWorkerHeartbeat then (cs, Returns (handle_heartbeat env ch req (cs_uuid cs) h))
      else if rq_method req = MethodWorkerReport then (cs, Returns (handle_report env ch req (cs_uuid cs) h))
      else if rq_method req = MethodWorkerResult then (cs, handle_result env ch req (cs_uuid cs) h)
      else if rq_method req = MethodWorkerPull then (cs, handle_pull env ch c req (cs_uuid cs) h)
      else if rq_method req = MethodWorkerPong then (cs, Returns h)
      else (cs, send_json env (Some c)
              (RespFrame (new_error_response ErrCodeMethodNotFound (''Method not found: '' @ rq_method req) (rq_id req))) h))"

text \<open>One message of the read loop, and the read error that ends it.\<close>

definition receive ::
  "'p handler_env \<Rightarrow> choices \<Rightarrow> conn_id \<Rightarrow> raw \<Rightarrow> conn_state \<Rightarrow> 'p hub \<Rightarrow> conn_state \<times> 'p hub outcome" where
  "receive env ch c bytes cs h =
     (case parse_request env bytes of
        None \<Rightarrow> (cs, send_json env (Some c) (RespFrame (new_error_response ErrCodeParse ''Parse error'' 0)) h)
      | Some req \<Rightarrow> handle_message env ch c req cs h)"

definition read_error :: "'p handler_env \<Rightarrow> choices \<Rightarrow> conn_id \<Rightarrow> conn_state \<Rightarrow> 'p hub \<Rightarrow> 'p hub" where
  "read_error env ch c cs h =
     (let u = cs_uuid cs;
          h1 = (if u = [] then h
                else notify env (ch_clients ch) (WorkerOffline u)
                       (on_master (\<lambda>m. on_worker_disconnect (ch_unix ch) (ch_tasks ch) u
                          (let (ws, n) = disconnect u (m_workers m) (m_net m)
                           in m\<lparr>m_workers := ws, m_net := n\<rparr>)) h))
      in on_master (\<lambda>m. m\<lparr>m_net := safe_close c (m_net m)\<rparr>) h1)"

section \<open>Facts about the hub\<close>

lemma hub_simps [simp]:
  "hub_master (on_master f h) = f (hub_master h)" "hub_dash (on_master f h) = hub_dash h"
  "hub_master (notify env cs v h) = hub_master h"
  "hub_workers (on_workers k h) = k (hub_workers h)" "hub_tasks (on_workers k h) = hub_tasks h"
  "hub_net (on_workers k h) = hub_net h" "hub_dash (on_workers k h) = hub_dash h"
  "hub_workers (on_tasks g h) = hub_workers h" "hub_tasks (on_tasks g h) = g (hub_tasks h)"
  "hub_net (on_tasks g h) = hub_net h"
  by (simp_all add: on_master_def notify_def on_workers_def on_tasks_def)

lemma send_json_keeps [simp]:
  "hub_workers (final_state (send_json env c v h)) = hub_workers h"
  "hub_tasks (final_state (send_json env c v h)) = hub_tasks h"
  "m_events (hub_master (final_state (send_json env c v h))) = m_events (hub_master h)"
  by (auto simp: send_json_def split: option.split)

lemma on_worker_connect_keeps [simp]:
  "m_workers (on_worker_connect env now u m) = m_workers m"
  "m_tasks (on_worker_connect env now u m) = m_tasks m"
  by (auto simp: on_worker_connect_def Let_def split_beta split: option.split)

lemma on_worker_disconnect_simps [simp]:
  "m_workers (on_worker_disconnect now ks u m) = reset_running_tasks u (m_workers m)"
  "m_tasks (on_worker_disconnect now ks u m) = snd (reassign_worker_tasks now ks u (m_tasks m))"
  "m_net (on_worker_disconnect now ks u m) = m_net m"
  by (simp_all add: on_worker_disconnect_def)

lemma final_map_outcome [simp]: "final_state (map_outcome f x) = f (final_state x)"
  by (cases x) simp_all

lemma disconnect_workers:
  "ws_workers (fst (disconnect u ws n)) = (ws_workers ws)(u := map_option went_offline (ws_workers ws u))"
  "get_conn v (fst (disconnect u ws n)) = (if v = u then None else get_conn v ws)"
  by (auto simp: disconnect_def Let_def get_conn_def split: option.split)

text \<open>The frames of one connection after an answer.\<close>

lemma send_json_sent:
  "sent_to d (hub_net (final_state (send_json env c v h))) =
     sent_to d (hub_net h) @
     (if c = Some d \<and> marshal_frame (he_sched env) v \<and> \<not> net_closed (hub_net h) d \<and>
         write_conn (he_sched env) d v then [v] else [])"
  by (auto simp: send_json_def safe_write_sent split: option.split)

lemma send_json_closed [simp]:
  "net_closed (hub_net (final_state (send_json env c v h))) = net_closed (hub_net h)"
  by (auto simp: send_json_def split: option.split)

lemma send_json_panics: "panics (send_json env c v h) \<longleftrightarrow> c = None \<and> marshal_frame (he_sched env) v"
  by (auto simp: send_json_def split: option.split)

text \<open>The frames a flush writes: one per event whose parameters can be marshalled.\<close>

definition event_frames :: "'p sched_env \<Rightarrow> 'p option event list \<Rightarrow> frame list" where
  "event_frames env = List.map_filter (\<lambda>e.
     map_option (\<lambda>req. if marshal_frame env (ReqFrame req) then ReqFrame req else EmptyFrame)
       (new_request (marshal_event env) (ev_method e) (ev_params e) 0))"

lemma flush_events_sent:
  assumes "\<forall>v. write_conn env c v" "\<not> net_closed n c"
  shows "sent_to c (flush_events env c es n) = sent_to c n @ event_frames env es \<and>
    net_closed (flush_events env c es n) = net_closed n"
  using assms(2)
proof (induction es arbitrary: n)
  case (Cons e es)
  then show ?case
    using assms(1)
    by (auto simp: event_frames_def map_filter_def Let_def safe_write_sent split: option.split)
qed (simp add: event_frames_def)

lemma on_worker_connect_sent:
  assumes "\<forall>v. write_conn env c v" "\<not> net_closed (m_net m) c" "get_conn u (m_workers m) = Some c"
  shows "sent_to c (m_net (on_worker_connect env now u m)) =
      sent_to c (m_net m) @ event_frames env (fst (pop_pending now (fst (get_or_create u (m_events m))))) \<and>
    net_closed (m_net (on_worker_connect env now u m)) = net_closed (m_net m) \<and>
    m_events (on_worker_connect env now u m) u =
      Some (snd (pop_pending now (fst (get_or_create u (m_events m)))))"
  using assms flush_events_sent [OF assms(1), of "m_net m"]
  by (auto simp: on_worker_connect_def Let_def split_beta event_frames_def)

section \<open>Properties\<close>

text \<open>
  C22. A registration over a working connection puts the worker online with no load on that
  connection, whatever was known of it before, leaves every other worker and all tasks alone,
  and never panics. The worker is sent its queued events first and the answer to the
  registration last, so the first frame it reads is the answer only when no event was queued.
\<close>

theorem registration_effect:
  fixes env :: "'p handler_env" and h :: "'p hub"
  assumes "decode_register env (rq_params req) = Some p"
    and "\<forall>v. write_conn (he_sched env) c v \<and> marshal_frame (he_sched env) v"
    and "\<not> net_closed (hub_net h) c"
    and u: "u = (if reg_uuid p = [] then reg_name p else reg_uuid p)"
    and result: "handle_register env ch c req cs h = (cs', out)"
  shows "\<not> panics out \<and> cs' = \<lparr>cs_uuid = u, cs_name = reg_name p\<rparr> \<and>
    get_conn u (hub_workers (final_state out)) = Some c \<and>
    (\<exists>i. ws_workers (hub_workers (final_state out)) u = Some i \<and> wi_online i \<and>
         wi_running_tasks i = 0 \<and> wi_capabilities i = reg_capabilities p \<and> wi_last_beat i = ch_now ch) \<and>
    (\<forall>v. v \<noteq> u \<longrightarrow> ws_workers (hub_workers (final_state out)) v = ws_workers (hub_workers h) v \<and>
                   get_conn v (hub_workers (final_state out)) = get_conn v (hub_workers h)) \<and>
    hub_tasks (final_state out) = hub_tasks h \<and>
    sent_to c (hub_net (final_state out)) = sent_to c (hub_net h) @
      event_frames (he_sched env) (fst (pop_pending (ch_now ch) (fst (get_or_create u (m_events (hub_master h)))))) @
      [response_to (marshal_register env) \<lparr>rr_uuid = wi_uuid (fst (register (ch_now ch) u (reg_name p) []
          (reg_capabilities p) (hub_workers h))), rr_token = []\<rparr> (rq_id req)]"
proof -
  let ?ws = "set_conn u c (snd (register (ch_now ch) u (reg_name p) [] (reg_capabilities p) (hub_workers h)))"
  let ?h1 = "on_workers (\<lambda>_. ?ws) h"
  let ?h2 = "on_master (on_worker_connect (he_sched env) (ch_now ch) u) ?h1"
  let ?info = "fst (register (ch_now ch) u (reg_name p) [] (reg_capabilities p) (hub_workers h))"
  let ?h3 = "notify env (ch_clients ch) (WorkerOnline ?info) ?h2"
  let ?v = "response_to (marshal_register env) \<lparr>rr_uuid = wi_uuid ?info, rr_token = []\<rparr> (rq_id req)"
  have out: "cs' = \<lparr>cs_uuid = u, cs_name = reg_name p\<rparr>" "out = send_json env (Some c) ?v ?h3"
    using result assms(1) u by (auto simp: handle_register_def Let_def split_beta split: if_splits)
  have net: "m_net (hub_master ?h1) = hub_net h" "m_events (hub_master ?h1) = m_events (hub_master h)"
    by (simp_all add: on_workers_def on_master_def)
  have conn: "get_conn u (m_workers (hub_master ?h1)) = Some c" by (simp add: get_conn_def)
  have flush: "sent_to c (hub_net ?h3) = sent_to c (hub_net h) @ event_frames (he_sched env)
        (fst (pop_pending (ch_now ch) (fst (get_or_create u (m_events (hub_master h))))))"
    "net_closed (hub_net ?h3) = net_closed (hub_net h)"
    using on_worker_connect_sent [of "he_sched env" c "hub_master ?h1" u "ch_now ch"] assms(2,3) net conn
    by simp_all
  have info: "wi_online ?info" "wi_running_tasks ?info = 0" "wi_capabilities ?info = reg_capabilities p"
    "wi_last_beat ?info = ch_now ch"
    by (simp_all add: register_def Let_def)
  show ?thesis
    using info flush assms(2,3) unfolding out
    by (simp add: send_json_sent send_json_panics register_simps get_conn_def)
qed

text \<open>
  The environment of the witnesses: messages name their method, every registration is of the
  worker \<open>w\<close>, every result completes task \<open>t_1\<close>, and nothing fails.
\<close>

definition demo_henv :: "unit handler_env" where
  "demo_henv =
     \<lparr>he_sched = demo_env,
      he_dash = \<lparr>marshal_msg = (\<lambda>_. True), write_browser = (\<lambda>_ _. True)\<rparr>,
      parse_request = (\<lambda>b. Some \<lparr>rq_jsonrpc = version, rq_method = b, rq_params = None, rq_id = 1\<rparr>),
      decode_register = (\<lambda>_. Some \<lparr>reg_uuid = [], reg_name = ''w'', reg_capabilities = None\<rparr>),
      decode_heartbeat = (\<lambda>_. None), decode_report = (\<lambda>_. None),
      decode_result = (\<lambda>_. Some \<lparr>tr_task_id = ''t_1'', tr_status = ''completed'', tr_hits = 3,
         tr_total_ips = 4, tr_duration = [], tr_results = []\<rparr>),
      marshal_register = (\<lambda>_. Some ''r''), marshal_strings = (\<lambda>_. Some ''m'')\<rparr>"

definition demo_choices :: choices where
  "demo_choices = \<lparr>ch_now = 0, ch_unix = 0, ch_clock = (\<lambda>_. 0), ch_workers = [''w''],
     ch_tasks = [''t_1'', ''t_2''], ch_clients = [], ch_clients2 = []\<rparr>"

definition demo_request :: "string \<Rightarrow> request" where
  "demo_request m = \<lparr>rq_jsonrpc = version, rq_method = m, rq_params = None, rq_id = 1\<rparr>"

definition demo_hub :: "task_store \<Rightarrow> unit hub" where
  "demo_hub ts = \<lparr>hub_master = demo_master ts, hub_dash = None\<rparr>"

lemma demo_hub_simps [simp]:
  "hub_master (demo_hub ts) = demo_master ts"
  "decode_register demo_henv r = Some \<lparr>reg_uuid = [], reg_name = ''w'', reg_capabilities = None\<rparr>"
  "he_sched demo_henv = demo_env" "write_conn demo_env c v" "marshal_frame demo_env v"
  "net_closed (m_net (demo_master ts)) = (\<lambda>_. False)" "m_events (demo_master ts) = Map.empty"
  "sent_to c (m_net (demo_master ts)) = []"
  "get_conn ''w'' demo_workers = Some 7"
  by (simp_all add: demo_hub_def demo_henv_def demo_env_def demo_master_def get_conn_def sent_to_def)

theorem registration_effect_witness:
  "\<exists>cs out. handle_register demo_henv demo_choices 8 (demo_request MethodWorkerRegister) new_conn
       (demo_hub two_tasks) = (cs, out) \<and>
     cs_uuid cs = ''w'' \<and> get_conn ''w'' (hub_workers (final_state out)) = Some 8 \<and>
     length (sent_to 8 (hub_net (final_state out))) = 1"
proof -
  obtain cs out where r: "handle_register demo_henv demo_choices 8 (demo_request MethodWorkerRegister) new_conn
       (demo_hub two_tasks) = (cs, out)" by fastforce
  have none: "fst (pop_pending t (fst (get_or_create ''w'' Map.empty))) = []" for t
    by (simp add: get_or_create_def pop_pending_def new_event_queue_def)
  show ?thesis
    using registration_effect [OF _ _ _ refl r] r by (simp add: none event_frames_def map_filter_def)
qed

lemma settled_tasks:
  "ts_tasks (snd (complete_task now k hits s)) = (ts_tasks s)(k := map_option
     (\<lambda>t. t\<lparr>t_status := TaskStatusCompleted, t_hits := hits, t_completed_at := now\<rparr>) (ts_tasks s k))"
  "ts_tasks (snd (fail_task now k s)) = (ts_tasks s)(k := map_option
     (\<lambda>t. t\<lparr>t_status := TaskStatusFailed, t_completed_at := now\<rparr>) (ts_tasks s k))"
  "ts_pendingQ (snd (complete_task now k hits s)) = ts_pendingQ s"
  "ts_pendingQ (snd (fail_task now k s)) = ts_pendingQ s"
  by (auto simp: complete_task_def fail_task_def Let_def split: option.split)

lemma decrement_workers:
  assumes "ws_inv s"
  shows "ws_workers (decrement_running_tasks u s) = (ws_workers s)(u := map_option
     (\<lambda>i. i\<lparr>wi_running_tasks := max 0 (wi_running_tasks i - 1)\<rparr>) (ws_workers s u))"
proof (cases "ws_workers s u")
  case (Some i)
  then have "0 \<le> wi_running_tasks i" using assms by (auto simp: ws_inv_def)
  then show ?thesis using Some by (cases i) (auto simp: decrement_running_tasks_def)
qed (simp add: decrement_running_tasks_def)

text \<open>
  C21. A result message of a registered connection settles the task it names, as completed or
  else as failed whatever other status it reports, takes one off the load of the connection's
  worker (not below zero), and is acknowledged on the connection the table holds for that
  worker, which need not be the one it came from. When the table holds none the handler panics,
  after all of this has been done.
\<close>

theorem result_effect:
  fixes env :: "'p handler_env" and h :: "'p hub"
  assumes "cs_uuid cs = u" "u \<noteq> []" and "rq_method req = MethodWorkerResult"
    and dec: "decode_result env (rq_params req) = Some p"
    and inv: "ws_inv (hub_workers h)"
    and marshal: "\<forall>v. marshal_frame (he_sched env) v"
    and result: "handle_message env ch c req cs h = (cs', out)"
  shows "cs' = cs \<and> (panics out \<longleftrightarrow> get_conn u (hub_workers h) = None) \<and>
    ts_tasks (hub_tasks (final_state out)) = (ts_tasks (hub_tasks h))(tr_task_id p := map_option
       (\<lambda>t. if tr_status p = ''completed''
            then t\<lparr>t_status := TaskStatusCompleted, t_hits := tr_hits p, t_completed_at := ch_unix ch\<rparr>
            else t\<lparr>t_status := TaskStatusFailed, t_completed_at := ch_unix ch\<rparr>)
       (ts_tasks (hub_tasks h) (tr_task_id p))) \<and>
    ts_pendingQ (hub_tasks (final_state out)) = ts_pendingQ (hub_tasks h) \<and>
    ws_workers (hub_workers (final_state out)) = (ws_workers (hub_workers h))(u := map_option
       (\<lambda>i. i\<lparr>wi_running_tasks := max 0 (wi_running_tasks i - 1)\<rparr>) (ws_workers (hub_workers h) u)) \<and>
    sent_to d (hub_net (final_state out)) = sent_to d (hub_net h) @
      (if get_conn u (hub_workers h) = Some d \<and> \<not> net_closed (hub_net h) d \<and>
          write_conn (he_sched env) d (response_to (marshal_strings env) [(''ack'', ''ok'')] (rq_id req))
       then [response_to (marshal_strings env) [(''ack'', ''ok'')] (rq_id req)] else [])"
proof -
  let ?done = "\<lambda>ts. snd (if tr_status p = ''completed''
      then complete_task (ch_unix ch) (tr_task_id p) (tr_hits p) ts
      else fail_task (ch_unix ch) (tr_task_id p) ts)"
  let ?h1 = "on_tasks ?done h"
  obtain h2 where h2: "h2 = (case get_by_id (tr_task_id p) (hub_tasks ?h1) of
      None \<Rightarrow> ?h1 | Some t \<Rightarrow> notify env (ch_clients ch)
        (if status_string (t_status t) = ''completed'' then TaskCompleted t else TaskUpdate t) ?h1)"
    by blast
  have m2: "hub_master h2 = hub_master ?h1" unfolding h2 by (simp split: option.split)
  have out: "cs' = cs" "out = send_json env (get_conn u (hub_workers (on_workers (decrement_running_tasks u) h2)))
      (response_to (marshal_strings env) [(''ack'', ''ok'')] (rq_id req))
      (on_workers (decrement_running_tasks u) h2)"
    using result assms(1-3) dec h2
    by (auto simp: handle_message_def method_defs handle_result_def Let_def)
  have conns: "get_conn u (decrement_running_tasks u ws) = get_conn u ws" for ws
    by (simp add: decrement_running_tasks_def get_conn_def)
  show ?thesis
    unfolding out using marshal
    by (simp add: send_json_sent send_json_panics m2 conns settled_tasks decrement_workers [OF inv])
qed

theorem result_effect_witness:
  "\<exists>out. handle_message demo_henv demo_choices 7 (demo_request MethodWorkerResult)
       \<lparr>cs_uuid = ''w'', cs_name = ''w''\<rparr> (demo_hub one_held) = (\<lparr>cs_uuid = ''w'', cs_name = ''w''\<rparr>, out) \<and>
     \<not> panics out \<and>
     map_option t_status (ts_tasks (hub_tasks (final_state out)) ''t_1'') = Some TaskStatusCompleted"
proof -
  obtain cs out where r: "handle_message demo_henv demo_choices 7 (demo_request MethodWorkerResult)
       \<lparr>cs_uuid = ''w'', cs_name = ''w''\<rparr> (demo_hub one_held) = (cs, out)" by fastforce
  have "decode_result demo_henv x = Some \<lparr>tr_task_id = ''t_1'', tr_status = ''completed'', tr_hits = 3,
         tr_total_ips = 4, tr_duration = [], tr_results = []\<rparr>" for x
    by (simp add: demo_henv_def)
  moreover have "\<exists>t. ts_tasks one_held ''t_1'' = Some t" by simp
  ultimately show ?thesis
    using result_effect [OF refl _ _ _ _ _ r] r by (auto simp: demo_request_def)
qed

text \<open>
  A worker that registers with neither a UUID nor a name is accepted as the worker with
  the empty UUID and counts as idle at once, but its connection is then treated as an
  unregistered one: its heartbeats, reports, results and pulls are ignored, and when the
  connection breaks the worker is not taken offline and keeps its tasks.
\<close>

theorem nameless_worker:
  fixes env :: "'p handler_env" and h h2 :: "'p hub"
  assumes "decode_register env (rq_params req) = Some p" "reg_uuid p = []" "reg_name p = []"
    and result: "handle_register env ch c req cs h = (cs', out)"
  shows "(\<exists>i. ws_workers (hub_workers (final_state out)) [] = Some i \<and> is_idle i) \<and>
    (\<forall>m \<in> {MethodWorkerHeartbeat, MethodWorkerReport, MethodWorkerResult, MethodWorkerPull, MethodWorkerPong}.
       handle_message env ch2 c (req2\<lparr>rq_method := m\<rparr>) cs' h2 = (cs', Returns h2)) \<and>
    read_error env ch2 c cs' h2 = on_master (\<lambda>m. m\<lparr>m_net := safe_close c (m_net m)\<rparr>) h2"
proof -
  have cs: "cs_uuid cs' = []" using assms by (auto simp: handle_register_def Let_def split_beta)
  have "\<exists>i. ws_workers (hub_workers (final_state out)) [] = Some i \<and> is_idle i"
    using assms by (auto simp: handle_register_def Let_def split_beta register_simps is_idle_def capacity_def
        split: option.split)
  then show ?thesis
    using cs by (simp add: handle_message_def method_defs handle_heartbeat_def handle_report_def
        handle_result_def handle_pull_def read_error_def)
qed

definition nameless_henv :: "unit handler_env" where
  "nameless_henv = demo_henv\<lparr>decode_register := \<lambda>_. Some \<lparr>reg_uuid = [], reg_name = [], reg_capabilities = None\<rparr>\<rparr>"

theorem nameless_worker_witness:
  "\<exists>cs out. handle_register nameless_henv demo_choices 8 (demo_request MethodWorkerRegister) new_conn
       (demo_hub two_tasks) = (cs, out) \<and>
     (\<exists>i. ws_workers (hub_workers (final_state out)) [] = Some i \<and> is_idle i) \<and>
     read_error nameless_henv demo_choices 8 cs (final_state out) =
       on_master (\<lambda>m. m\<lparr>m_net := safe_close 8 (m_net m)\<rparr>) (final_state out)"
proof -
  obtain cs out where r: "handle_register nameless_henv demo_choices 8 (demo_request MethodWorkerRegister)
       new_conn (demo_hub two_tasks) = (cs, out)" by fastforce
  have dec: "decode_register nameless_henv (rq_params (demo_request MethodWorkerRegister)) =
      Some \<lparr>reg_uuid = [], reg_name = [], reg_capabilities = None\<rparr>" by (simp add: nameless_henv_def)
  show ?thesis
    using nameless_worker [OF dec _ _ r, of demo_choices "demo_request []" "final_state out"] r by simp
qed

end
