(* ===== verification/MasterSystem.thy ===== *)
theory MasterSystem
  imports Handler
begin

text \<open>
  The master as a whole: any number of worker connections, each with the state its read loop
  keeps, the scheduler's ticker, the offline detector, the browsers and the callers that create
  and cancel tasks, as a step relation; and what holds in every state it can reach. A step is
  one whole handler call, pass or scan.
\<close>

section \<open>What every operation keeps\<close>

definition no_running :: "task_store \<Rightarrow> bool" where
  "no_running s \<longleftrightarrow> (\<forall>k t. ts_tasks s k = Some t \<longrightarrow> t_status t \<noteq> TaskStatusRunning)"

definition is_online :: "uuid \<Rightarrow> worker_store \<Rightarrow> bool" where
  "is_online u ws \<longleftrightarrow> (\<exists>i. ws_workers ws u = Some i \<and> wi_online i)"

definition online_iff_connected :: "worker_store \<Rightarrow> bool" where
  "online_iff_connected ws \<longleftrightarrow> (\<forall>u. is_online u ws \<longleftrightarrow> get_conn u ws \<noteq> None)"

definition tasks_ok :: "task_store \<Rightarrow> bool" where
  "tasks_ok s \<longleftrightarrow> ts_inv s \<and> no_running s"

definition workers_ok :: "worker_store \<Rightarrow> bool" where
  "workers_ok ws \<longleftrightarrow> ws_inv ws \<and> online_iff_connected ws"

definition hub_ok :: "'p hub \<Rightarrow> bool" where
  "hub_ok h \<longleftrightarrow> tasks_ok (hub_tasks h) \<and> workers_ok (hub_workers h)"

named_theorems keeps \<open>operations keep the invariants\<close>

subsection \<open>Tasks\<close>

lemma no_running_modify:
  "no_running s \<Longrightarrow> (\<And>t. ts_tasks s k = Some t \<Longrightarrow> t_status (f t) \<noteq> TaskStatusRunning) \<Longrightarrow>
   no_running (modify_task f k s)"
  by (auto simp: no_running_def)

lemma no_running_queue [simp]:
  "no_running (enqueue k s) = no_running s" "no_running (unqueue k s) = no_running s"
  by (simp_all add: no_running_def)

lemma no_running_new: "no_running new_task_store"
  by (simp add: no_running_def new_task_store_def)

lemma no_running_store_new:
  "no_running s \<Longrightarrow> t_status t = TaskStatusPending \<Longrightarrow> no_running (store_new t s)"
  by (auto simp: no_running_def)

lemma no_running_create_loop:
  "no_running s \<Longrightarrow> (\<And>i s. t_status (mk i s) = TaskStatusPending) \<Longrightarrow>
   no_running (snd (create_loop mk is s))"
  by (induction mk "is" s rule: create_loop.induct)
    (auto simp: Let_def split_beta intro: no_running_store_new)

lemma no_running_moves:
  assumes "no_running s"
  shows "no_running (snd (create_task now name asns ports mr n s))"
    "no_running (snd (create_shards nano clock name asns ports mr tot cnt s))"
    "no_running (snd (create_cidr_shards nano clock name asns groups ports mr s))"
    "no_running (snd (assign_task now k w s))" "no_running (snd (reassign_task k s))"
    "no_running (snd (complete_task now k hits s))" "no_running (snd (fail_task now k s))"
    "no_running (snd (cancel_task now k s))" "no_running (update_progress k ph pr sc tot hits s)"
  using assms
  by (auto simp: create_task_def create_shards_def create_cidr_shards_def assign_task_def
      reassign_task_def complete_task_def fail_task_def cancel_task_def update_progress_def
      Let_def no_running_def [of s] split_beta
      intro!: no_running_create_loop no_running_store_new no_running_modify split: option.split)

lemma tasks_ok_moves [keeps]:
  assumes "tasks_ok s"
  shows "tasks_ok (snd (create_task now name asns ports mr n s))"
    "tasks_ok (snd (create_shards nano clock name asns ports mr tot cnt s))"
    "tasks_ok (snd (create_cidr_shards nano clock name asns groups ports mr s))"
    "tasks_ok (snd (assign_task now k w s))" "tasks_ok (snd (reassign_task k s))"
    "tasks_ok (snd (complete_task now k hits s))" "tasks_ok (snd (fail_task now k s))"
    "tasks_ok (snd (cancel_task now k s))" "tasks_ok (update_progress k ph pr sc tot hits s)"
  using assms unfolding tasks_ok_def
  by (simp_all add: no_running_moves ts_inv_create ts_inv_shards ts_inv_cidr_shards ts_inv_assign
      ts_inv_reassign ts_inv_complete ts_inv_fail ts_inv_cancel ts_inv_progress)

lemma tasks_ok_cancel_loop: "tasks_ok s \<Longrightarrow> tasks_ok (snd (cancel_loop now ts s))"
  by (induction ts arbitrary: s) (simp_all add: split_beta Let_def keeps split: option.split)

lemma tasks_ok_cancel_group [keeps]: "tasks_ok s \<Longrightarrow> tasks_ok (snd (cancel_group now ks g s))"
  by (simp add: cancel_group_def tasks_ok_cancel_loop)

lemma no_running_reassign_loop: "no_running s \<Longrightarrow> no_running (snd (reassign_loop now w ks s))"
  by (induction now w ks s rule: reassign_loop.induct)
    (auto simp: Let_def split_beta no_running_modify split: option.split)

lemma tasks_ok_reassign_worker [keeps]: "tasks_ok s \<Longrightarrow> tasks_ok (snd (reassign_worker_tasks now ks w s))"
  by (simp add: tasks_ok_def reassign_worker_tasks_def ts_inv_reassign_loop no_running_reassign_loop)

lemma tasks_ok_tick [keeps]: "tasks_ok (m_tasks m) \<Longrightarrow> tasks_ok (m_tasks (tick env clock us m))"
  unfolding tick_tasks by (rule dispatch_keeps) (auto intro: keeps)

subsection \<open>Workers\<close>

lemma is_online_modify:
  "is_online v (modify_worker f u ws) \<longleftrightarrow>
     (if v = u then \<exists>i. ws_workers ws u = Some i \<and> wi_online (f i) else is_online v ws)"
  by (auto simp: is_online_def)

lemma online_modify:
  "online_iff_connected ws \<Longrightarrow> (\<And>i. wi_online (f i) = wi_online i) \<Longrightarrow>
   online_iff_connected (modify_worker f u ws)"
  unfolding online_iff_connected_def is_online_modify by (simp add: is_online_def get_conn_def)

lemma online_heartbeat: "online_iff_connected (heartbeat now u hb ws) = online_iff_connected ws"
proof -
  have "is_online v (heartbeat now u hb ws) = is_online v ws" for v
    by (auto simp: is_online_def heartbeat_def split: option.split)
  then show ?thesis
    by (simp add: online_iff_connected_def get_conn_def heartbeat_def split: option.split)
qed

lemma workers_ok_load [keeps]:
  assumes "workers_ok ws"
  shows "workers_ok (set_worker_status u st ws)" "workers_ok (worker_progress u rep ws)"
    "workers_ok (increment_running_tasks u ws)" "workers_ok (decrement_running_tasks u ws)"
    "workers_ok (reset_running_tasks u ws)" "workers_ok (heartbeat now u hb ws)"
  using assms unfolding workers_ok_def
  by (simp_all add: ws_inv_load ws_inv_heartbeat online_heartbeat)
    (simp_all add: online_modify set_worker_status_def worker_progress_def increment_running_tasks_def
      decrement_running_tasks_def reset_running_tasks_def)

lemma workers_ok_register [keeps]:
  "workers_ok ws \<Longrightarrow> workers_ok (set_conn u c (snd (register now u name addr caps ws)))"
  by (auto simp: workers_ok_def ws_inv_set_conn ws_inv_register online_iff_connected_def
      is_online_def get_conn_def register_simps)

lemma workers_ok_disconnect [keeps]: "workers_ok ws \<Longrightarrow> workers_ok (fst (disconnect u ws n))"
  by (auto simp: workers_ok_def ws_inv_disconnect online_iff_connected_def is_online_def
      disconnect_workers)

lemma workers_ok_offline_scan [keeps]:
  assumes "workers_ok ws" "distinct us"
  shows "workers_ok (offline_scan now us ws)"
proof -
  have "is_online u (offline_scan now us ws) \<longleftrightarrow> get_conn u (offline_scan now us ws) \<noteq> None" for u
    using assms(1) offline_scan_effect [OF assms(2), of now ws u]
    by (auto simp: workers_ok_def online_iff_connected_def is_online_def get_conn_def split: if_splits)
  then show ?thesis
    using assms(1) ws_inv_offline_scan by (simp add: workers_ok_def online_iff_connected_def)
qed

lemma workers_ok_credit: "workers_ok ws \<Longrightarrow> workers_ok (credit js ws)"
  by (induction js arbitrary: ws) (auto simp: credit_Cons keeps credit_def)

lemma workers_ok_tick [keeps]: "workers_ok (m_workers m) \<Longrightarrow> workers_ok (m_workers (tick env clock us m))"
  by (simp add: tick_refines after_dispatch_def workers_ok_credit)

subsection \<open>The hub\<close>

lemma hub_ok_register: "hub_ok h \<Longrightarrow> hub_ok (final_state (snd (handle_register env ch c req cs h)))"
  by (auto simp: hub_ok_def handle_register_def Let_def split_beta keeps split: option.split)

lemma hub_ok_messages:
  assumes "hub_ok h"
  shows "hub_ok (handle_heartbeat env ch req u h)" "hub_ok (handle_report env ch req u h)"
    "hub_ok (final_state (handle_result env ch req u h))"
    "hub_ok (final_state (handle_pull env ch c req u h))"
  using assms
  by (auto simp: hub_ok_def handle_heartbeat_def handle_report_def handle_result_def handle_pull_def
      Let_def keeps split: option.split)

lemma hub_ok_receive: "hub_ok h \<Longrightarrow> hub_ok (final_state (snd (receive env ch c bytes cs h)))"
  by (auto simp: receive_def handle_message_def hub_ok_register hub_ok_messages split: option.split)
    (simp_all add: hub_ok_def)

lemma hub_ok_read_error: "hub_ok h \<Longrightarrow> hub_ok (read_error env ch c cs h)"
  by (auto simp: hub_ok_def read_error_def Let_def split_beta keeps)

section \<open>The system\<close>

record 'p system =
  sy_hub :: "'p hub"
  sy_loops :: "conn_id \<rightharpoonup> conn_state"
  sy_next :: conn_id

definition new_system :: "dashboard option \<Rightarrow> 'p system" where
  "new_system d =
     \<lparr>sy_hub = \<lparr>hub_master = \<lparr>m_workers = new_worker_store, m_tasks = new_task_store,
                                m_events = Map.empty,
                                m_net = \<lparr>net_closed = (\<lambda>_. False), net_out = []\<rparr>\<rparr>,
                hub_dash = d\<rparr>,
      sy_loops = Map.empty, sy_next = 0\<rparr>"

text \<open>
  A panic ends the read loop of its connection and nothing else: the HTTP server recovers it,
  and neither \<open>Disconnect\<close> nor \<open>Close\<close> runs. The callers that create and cancel tasks are
  not in the repository; they can only use the store's operations.
\<close>

inductive api_call :: "task_store \<Rightarrow> task_store \<Rightarrow> bool" where
  api_create: "api_call s (snd (create_task now name asns ports mr n s))"
| api_shards: "api_call s (snd (create_shards nano clock name asns ports mr tot n s))"
| api_cidrs: "api_call s (snd (create_cidr_shards nano clock name asns groups ports mr s))"
| api_cancel: "api_call s (snd (cancel_task now k s))"
| api_group: "api_call s (snd (cancel_group now ks g s))"

inductive sys_step :: "'p handler_env \<Rightarrow> 'p system \<Rightarrow> 'p system \<Rightarrow> bool"
  for env :: "'p handler_env" where
  sys_accept: "sys_step env s (s\<lparr>sy_loops := (sy_loops s)(sy_next s \<mapsto> new_conn), sy_next := sy_next s + 1\<rparr>)"
| sys_message: "sy_loops s c = Some cs \<Longrightarrow> receive env ch c bytes cs (sy_hub s) = (cs', out) \<Longrightarrow>
    sys_step env s (s\<lparr>sy_hub := final_state out,
                       sy_loops := (sy_loops s)(c := if panics out then None else Some cs')\<rparr>)"
| sys_gone: "sy_loops s c = Some cs \<Longrightarrow>
    sys_step env s (s\<lparr>sy_hub := read_error env ch c cs (sy_hub s), sy_loops := (sy_loops s)(c := None)\<rparr>)"
| sys_tick: "sys_step env s (s\<lparr>sy_hub := on_master (tick (he_sched env) clock us) (sy_hub s)\<rparr>)"
| sys_scan: "distinct us \<Longrightarrow> sys_step env s (s\<lparr>sy_hub := on_workers (offline_scan now us) (sy_hub s)\<rparr>)"
| sys_api: "api_call (hub_tasks (sy_hub s)) ts \<Longrightarrow>
    sys_step env s (s\<lparr>sy_hub := on_tasks (\<lambda>_. ts) (sy_hub s)\<rparr>)"
| sys_browser: "hub_dash (sy_hub s) = Some d \<Longrightarrow>
    sys_step env s (s\<lparr>sy_hub := (sy_hub s)\<lparr>hub_dash :=
       Some (browser_connect (he_dash env) us ks (hub_workers (sy_hub s)) (hub_tasks (sy_hub s)) b d)\<rparr>\<rparr>)"
| sys_browser_gone: "hub_dash (sy_hub s) = Some d \<Longrightarrow>
    sys_step env s (s\<lparr>sy_hub := (sy_hub s)\<lparr>hub_dash := Some (browser_gone b d)\<rparr>\<rparr>)"

lemma api_call_keeps: "api_call s s' \<Longrightarrow> tasks_ok s \<Longrightarrow> tasks_ok s'"
  by (induction rule: api_call.induct) (auto intro: keeps)

lemma sys_step_keeps: "sys_step env s s' \<Longrightarrow> hub_ok (sy_hub s) \<Longrightarrow> hub_ok (sy_hub s')"
proof (induction rule: sys_step.induct)
  case (sys_message s c cs ch bytes cs' out)
  then show ?case using hub_ok_receive [of "sy_hub s" env ch c bytes cs] by simp
next
  case (sys_gone s c cs ch)
  then show ?case by (simp add: hub_ok_read_error)
qed (auto simp: hub_ok_def keeps api_call_keeps)

lemma new_stores_ok: "tasks_ok new_task_store" "workers_ok new_worker_store"
  by (simp_all add: tasks_ok_def workers_ok_def ts_inv_new no_running_new ws_inv_new)
    (simp add: online_iff_connected_def is_online_def get_conn_def new_worker_store_def)

lemma new_system_ok: "hub_ok (sy_hub (new_system d))"
  by (simp add: hub_ok_def new_system_def new_stores_ok)

interpretation sysm: machine_invariant "\<lambda>s. \<exists>d. s = new_system d" "sys_step env" "\<lambda>s. hub_ok (sy_hub s)"
  for env :: "'p handler_env"
  by unfold_locales (use new_system_ok sys_step_keeps in auto)

abbreviation reachable_system :: "'p handler_env \<Rightarrow> 'p system \<Rightarrow> bool" where
  "reachable_system env \<equiv> reach (\<lambda>s. \<exists>d. s = new_system d) (sys_step env)"

text \<open>Only registrations, losses and scans change who is online.\<close>

lemma is_online_load [simp]:
  "is_online v (set_worker_status u st ws) = is_online v ws"
  "is_online v (worker_progress u rep ws) = is_online v ws"
  "is_online v (increment_running_tasks u ws) = is_online v ws"
  "is_online v (decrement_running_tasks u ws) = is_online v ws"
  "is_online v (heartbeat now u hb ws) = is_online v ws"
proof -
  have same: "is_online v (modify_worker f u ws) = is_online v ws" if "\<And>i. wi_online (f i) = wi_online i" for f
    using that by (simp add: is_online_modify) (simp add: is_online_def)
  show "is_online v (set_worker_status u st ws) = is_online v ws"
    "is_online v (worker_progress u rep ws) = is_online v ws"
    "is_online v (increment_running_tasks u ws) = is_online v ws"
    "is_online v (decrement_running_tasks u ws) = is_online v ws"
    unfolding set_worker_status_def worker_progress_def increment_running_tasks_def decrement_running_tasks_def
    by (simp_all add: same)
  show "is_online v (heartbeat now u hb ws) = is_online v ws"
    by (cases "ws_workers ws u") (simp_all add: heartbeat_def is_online_def)
qed

lemma is_online_tick [simp]: "is_online v (m_workers (tick env clock us m)) = is_online v (m_workers m)"
proof -
  have "is_online v (credit js ws) = is_online v ws" for js ws
  proof (induction js arbitrary: ws)
    case (Cons p js)
    then show ?case by (cases p) (simp add: credit_Cons)
  qed (simp add: credit_def)
  then show ?thesis by (simp add: tick_refines after_dispatch_def)
qed

lemma online_kept:
  "is_online v (hub_workers (handle_heartbeat env ch req u h)) = is_online v (hub_workers h)"
  "is_online v (hub_workers (handle_report env ch req u h)) = is_online v (hub_workers h)"
  "is_online v (hub_workers (final_state (handle_result env ch req u h))) = is_online v (hub_workers h)"
  "is_online v (hub_workers (final_state (handle_pull env ch c req u h))) = is_online v (hub_workers h)"
  by (auto simp: handle_heartbeat_def handle_report_def handle_result_def handle_pull_def Let_def
      split: option.split)

section \<open>Properties\<close>

text \<open>
  The history of the witnesses: a worker connects and registers, two tasks are created, and the
  worker pulls, which dispatches the first task to it.
\<close>

definition after_message :: "'p handler_env \<Rightarrow> choices \<Rightarrow> conn_id \<Rightarrow> raw \<Rightarrow> 'p system \<Rightarrow> 'p system" where
  "after_message env ch c bytes s =
     (case sy_loops s c of
        None \<Rightarrow> s
      | Some cs \<Rightarrow>
          let (cs', out) = receive env ch c bytes cs (sy_hub s)
          in s\<lparr>sy_hub := final_state out, sy_loops := (sy_loops s)(c := if panics out then None else Some cs')\<rparr>)"

lemma reachable_after_message:
  "reachable_system env s \<Longrightarrow> reachable_system env (after_message env ch c bytes s)"
proof (cases "sy_loops s c")
  case (Some cs)
  assume r: "reachable_system env s"
  obtain cs' out where o: "receive env ch c bytes cs (sy_hub s) = (cs', out)" by fastforce
  show ?thesis
    using reach_step [OF r sys_message [OF Some o]] Some o by (simp add: after_message_def)
qed (simp add: after_message_def)

lemma reachable_accept: "reachable_system env s \<Longrightarrow>
    reachable_system env (s\<lparr>sy_loops := (sy_loops s)(sy_next s \<mapsto> new_conn), sy_next := sy_next s + 1\<rparr>)"
  by (erule reach_step) (rule sys_accept)

lemma reachable_api: "reachable_system env s \<Longrightarrow> api_call (hub_tasks (sy_hub s)) ts \<Longrightarrow>
    reachable_system env (s\<lparr>sy_hub := on_tasks (\<lambda>_. ts) (sy_hub s)\<rparr>)"
  by (erule reach_step) (rule sys_api)

definition registered_system :: "unit system" where
  "registered_system = after_message demo_henv demo_choices 0 MethodWorkerRegister
     ((new_system None)\<lparr>sy_loops := [0 \<mapsto> new_conn], sy_next := 1\<rparr>)"

definition loaded_system :: "unit system" where
  "loaded_system = registered_system\<lparr>sy_hub := on_tasks (\<lambda>_. two_tasks) (sy_hub registered_system)\<rparr>"

definition serving_system :: "unit system" where
  "serving_system = after_message demo_henv demo_choices 0 MethodWorkerPull loaded_system"

lemmas run_simps = after_message_def new_system_def receive_def handle_message_def method_defs
  demo_henv_def demo_choices_def demo_env_def handle_register_def register_def fresh_worker_def
  set_conn_def new_worker_store_def on_workers_def on_master_def on_tasks_def on_worker_connect_def get_or_create_def
  new_event_queue_def pop_pending_def notify_def send_json_def safe_write_def response_to_def
  new_response_def new_conn_def get_conn_def

lemma reachable_registered: "reachable_system demo_henv registered_system"
  using reachable_accept [OF reach_init, of "new_system None" demo_henv]
  unfolding registered_system_def
  by (intro reachable_after_message) (force simp: new_system_def)

lemma reachable_loaded: "reachable_system demo_henv loaded_system"
proof -
  let ?s1 = "snd (create_task 2 ''a'' [] [443] 0 0 new_task_store)"
  have t0: "hub_tasks (sy_hub registered_system) = new_task_store"
    by (simp add: registered_system_def run_simps Let_def)
  have "reachable_system demo_henv (registered_system\<lparr>sy_hub := on_tasks (\<lambda>_. ?s1) (sy_hub registered_system)\<rparr>)"
    using reachable_api [OF reachable_registered, unfolded t0, OF api_create] .
  from reachable_api [OF this, of two_tasks] show ?thesis
    by (simp add: loaded_system_def two_tasks_def api_create on_tasks_def on_master_def)
qed

lemma reachable_serving: "reachable_system demo_henv serving_system"
  unfolding serving_system_def by (intro reachable_after_message reachable_loaded)

lemma serving_simps:
  "ts_pendingQ (hub_tasks (sy_hub serving_system)) = [''t_2'']"
  "map_option t_status (ts_tasks (hub_tasks (sy_hub serving_system)) ''t_1'') = Some TaskStatusAssigned"
  "map_order [''t_1'', ''t_2''] (ts_tasks (hub_tasks (sy_hub serving_system)))"
  "satisfies (held_by ''w'') (hub_tasks (sy_hub serving_system)) ''t_1''"
  "\<not> satisfies (held_by ''w'') (hub_tasks (sy_hub serving_system)) ''t_2''"
  "ws_workers (hub_workers (sy_hub serving_system)) ''w'' \<noteq> None"
  "map_order [''w''] (ws_workers (hub_workers (sy_hub serving_system)))"
  "sy_loops serving_system 0 = Some \<lparr>cs_uuid = ''w'', cs_name = ''w''\<rparr>"
  by (simp_all add: serving_system_def loaded_system_def registered_system_def run_simps handle_pull_def
      Let_def tick_def get_idle_workers_def list_workers_def entries_Cons is_idle_def capacity_def
      set_worker_status_def modify_worker_def get_pending_def assign_task_def send_assignment_def
      new_request_def increment_running_tasks_def unqueue_def modify_task_def zero_task_def
      map_order_def satisfies_def held_by_def active_def)



text \<open>
  C4. When the read loop of a registered connection ends with an error, every task its worker
  holds goes back to the queue at once (the grace period of \<open>ReassignWorkerTasks\<close> never
  applies) and no other task changes; the worker is offline with no load; and the connection
  the table held for it is closed as well, even if it is a newer one than the one that failed.
\<close>

theorem connection_loss_effect:
  fixes env :: "'p handler_env" and s :: "'p system"
  assumes reach: "reachable_system env s" and "cs_uuid cs = u" "u \<noteq> []"
    and order: "map_order (ch_tasks ch) (ts_tasks (hub_tasks (sy_hub s)))"
    and result: "h' = read_error env ch c cs (sy_hub s)"
  shows "ts_tasks (hub_tasks h') = update_where (satisfies (held_by u) (hub_tasks (sy_hub s))) released
      (ts_tasks (hub_tasks (sy_hub s))) \<and>
    ts_pendingQ (hub_tasks h') = ts_pendingQ (hub_tasks (sy_hub s)) @
      filter (satisfies (held_by u) (hub_tasks (sy_hub s))) (ch_tasks ch) \<and>
    \<not> is_online u (hub_workers h') \<and> get_conn u (hub_workers h') = None \<and>
    (\<forall>i. ws_workers (hub_workers h') u = Some i \<longrightarrow> wi_running_tasks i = 0) \<and>
    net_closed (hub_net h') c \<and>
    (\<forall>d. get_conn u (hub_workers (sy_hub s)) = Some d \<longrightarrow> net_closed (hub_net h') d)"
proof -
  let ?ts = "hub_tasks (sy_hub s)" and ?ws = "hub_workers (sy_hub s)"
  have inv: "ts_inv ?ts" and nr: "no_running ?ts"
    using sysm.inv_reach [OF reach] by (simp_all add: hub_ok_def tasks_ok_def)
  have R: "reassignable (ch_unix ch) u ?ts = satisfies (held_by u) ?ts"
    using nr by (auto simp: reassignable_def satisfies_def no_running_def in_grace_def fun_eq_iff split: option.split)
  have tasks: "snd (reassign_worker_tasks (ch_unix ch) (ch_tasks ch) u ?ts) =
      ?ts\<lparr>ts_tasks := update_where (\<lambda>k. k \<in> set (ch_tasks ch) \<and> satisfies (held_by u) ?ts k) released (ts_tasks ?ts),
          ts_pendingQ := ts_pendingQ ?ts @ filter (satisfies (held_by u) ?ts) (ch_tasks ch)\<rparr>"
    unfolding reassign_worker_tasks_def reassign_loop_effect [OF inv map_orderD(1) [OF order]] R by simp
  have "update_where (\<lambda>k. k \<in> set (ch_tasks ch) \<and> satisfies (held_by u) ?ts k) released (ts_tasks ?ts) =
      update_where (satisfies (held_by u) ?ts) released (ts_tasks ?ts)"
    using map_orderD(2) [OF order] by (auto simp: update_where_def satisfies_def fun_eq_iff split: option.splits)
  then have ts': "hub_tasks h' = ?ts\<lparr>ts_tasks := update_where (satisfies (held_by u) ?ts) released (ts_tasks ?ts),
          ts_pendingQ := ts_pendingQ ?ts @ filter (satisfies (held_by u) ?ts) (ch_tasks ch)\<rparr>"
    using assms(2,3) tasks by (simp add: result read_error_def split_beta)
  have ws': "hub_workers h' = reset_running_tasks u (fst (disconnect u ?ws (hub_net (sy_hub s))))"
    and net': "hub_net h' = safe_close c (snd (disconnect u ?ws (hub_net (sy_hub s))))"
    using assms(2,3) by (simp_all add: result read_error_def split_beta)
  have "net_closed (snd (disconnect u ?ws n)) d" if "get_conn u ?ws = Some d" for d and n :: "frame net"
    using that by (simp add: disconnect_def Let_def get_conn_def safe_close_def)
  moreover have "get_conn u (reset_running_tasks u ws) = get_conn u ws" for ws
    by (simp add: reset_running_tasks_def get_conn_def)
  ultimately show ?thesis
    unfolding ts' ws' net'
    by (auto simp: safe_close_def disconnect_workers reset_running_tasks_def is_online_def)
qed

theorem connection_loss_effect_witness:
  "let h = read_error demo_henv demo_choices 0 (the (sy_loops serving_system 0)) (sy_hub serving_system)
   in ts_pendingQ (hub_tasks h) = [''t_2'', ''t_1''] \<and> \<not> is_online ''w'' (hub_workers h) \<and>
      net_closed (hub_net h) 0"
proof -
  have "cs_uuid (the (sy_loops serving_system 0)) = ''w''" by (simp add: serving_simps)
  from connection_loss_effect [OF reachable_serving this _ _ refl, of demo_choices 0] show ?thesis
    by (simp add: serving_simps demo_choices_def Let_def)
qed


definition silent_system :: "unit system" where
  "silent_system = serving_system\<lparr>sy_hub := on_workers (offline_scan (seconds 60) [''w'']) (sy_hub serving_system)\<rparr>"

lemma reachable_silent: "reachable_system demo_henv silent_system"
  unfolding silent_system_def using reachable_serving by (rule reach_step) (rule sys_scan, simp)

lemma silent_system_offline: "\<not> is_online ''w'' (hub_workers (sy_hub silent_system))"
proof -
  have "timed_out (seconds 60) (hub_workers (sy_hub serving_system)) ''w''"
    by (simp add: serving_system_def loaded_system_def registered_system_def run_simps handle_pull_def
        Let_def tick_def get_idle_workers_def list_workers_def entries_Cons is_idle_def capacity_def
        set_worker_status_def modify_worker_def get_pending_def assign_task_def send_assignment_def
        new_request_def increment_running_tasks_def unqueue_def modify_task_def zero_task_def
        timed_out_def silent_def)
  then show ?thesis
    using offline_scan_effect [of "[''w'']" "seconds 60" "hub_workers (sy_hub serving_system)" "''w''"]
    by (auto simp: silent_system_def is_online_def)
qed


end
