(* ===== verification/Text.thy ===== *)
theory Text
  imports Prelude
begin

text \<open>
  What the program uses of Go's standard library on text: \<open>strings\<close> (\<open>Fields\<close>, \<open>TrimSpace\<close>,
  \<open>Split\<close>, \<open>Join\<close>, \<open>HasPrefix\<close>, \<open>Contains\<close>), \<open>strconv.Atoi\<close>, the decimal verb of
  \<open>fmt.Sscanf\<close> and the line scanner of \<open>bufio\<close>, on strings as lists of bytes. White space
  is the ASCII white space.
\<close>

section \<open>Splitting and joining\<close>

fun split_on :: "char \<Rightarrow> string \<Rightarrow> string list" where
  "split_on d [] = [[]]"
| "split_on d (c # cs) =
     (if c = d then [] # split_on d cs
      else case split_on d cs of [] \<Rightarrow> [[c]] | f # fs \<Rightarrow> (c # f) # fs)"

fun join :: "string \<Rightarrow> string list \<Rightarrow> string" where
  "join sep [] = []"
| "join sep [x] = x"
| "join sep (x # y # xs) = x @ sep @ join sep (y # xs)"

lemma split_on_nonempty [simp]: "split_on d s \<noteq> []"
  by (induction s) (auto split: list.splits)

lemma split_on_field: "d \<notin> set f \<Longrightarrow> split_on d f = [f]"
  by (induction f) auto

lemma split_on_append: "d \<notin> set f \<Longrightarrow> split_on d (f @ d # rest) = f # split_on d rest"
  by (induction f) auto

lemma split_on_snoc_append: "split_on d (s @ d # t) = split_on d s @ split_on d t"
  by (induction s) (auto split: list.splits)

lemma split_on_join:
  "xs \<noteq> [] \<Longrightarrow> \<forall>x \<in> set xs. d \<notin> set x \<Longrightarrow> split_on d (join [d] xs) = xs"
  by (induction xs rule: induct_list012) (simp_all add: split_on_field split_on_append)

lemma join_split_on: "join [d] (split_on d s) = s"
proof (induction s)
  case (Cons c s)
  then show ?case
    by (cases "split_on d s" rule: remdups_adj.cases) (auto simp: neq_Nil_conv)
qed simp

lemma split_on_no_sep: "x \<in> set (split_on d s) \<Longrightarrow> d \<notin> set x"
  by (induction s arbitrary: x) (auto split: list.splits if_splits)

section \<open>White space\<close>

definition is_space :: "char \<Rightarrow> bool" where
  "is_space c \<longleftrightarrow> c = CHR '' '' \<or> (9 \<le> (of_char c :: nat) \<and> (of_char c :: nat) \<le> 13)"

definition trim_space :: "string \<Rightarrow> string" where
  "trim_space s = rev (dropWhile is_space (rev (dropWhile is_space s)))"

text \<open>\<open>fields_from w s\<close>: the fields of \<open>s\<close> when \<open>w\<close> is the field being read, reversed.\<close>

fun fields_from :: "string \<Rightarrow> string \<Rightarrow> string list" where
  "fields_from w [] = (if w = [] then [] else [rev w])"
| "fields_from w (c # cs) =
     (if is_space c then (if w = [] then fields_from [] cs else rev w # fields_from [] cs)
      else fields_from (c # w) cs)"

definition go_fields :: "string \<Rightarrow> string list" where
  "go_fields s = fields_from [] s"

definition has_prefix :: "string \<Rightarrow> string \<Rightarrow> bool" where
  "has_prefix s p \<longleftrightarrow> take (length p) s = p"

fun contains :: "string \<Rightarrow> string \<Rightarrow> bool" where
  "contains [] p \<longleftrightarrow> p = []"
| "contains (c # cs) p \<longleftrightarrow> has_prefix (c # cs) p \<or> contains cs p"

definition no_space :: "string \<Rightarrow> bool" where
  "no_space w \<longleftrightarrow> (\<forall>c \<in> set w. \<not> is_space c)"

lemma space_chars: "is_space (CHR 0x0A)" "is_space (CHR 0x0D)" "is_space (CHR '' '')"
  by (simp_all add: is_space_def)

lemma no_space_chars:
  "no_space w \<Longrightarrow> CHR 0x0A \<notin> set w" "no_space w \<Longrightarrow> CHR 0x0D \<notin> set w" "no_space w \<Longrightarrow> CHR '' '' \<notin> set w"
  using space_chars unfolding no_space_def by blast+

lemma fields_from_word: "no_space v \<Longrightarrow> fields_from w (v @ s) = fields_from (rev v @ w) s"
  by (induction v arbitrary: w) (auto simp: no_space_def)

lemma go_fields_word: "no_space w \<Longrightarrow> w \<noteq> [] \<Longrightarrow> go_fields (w @ CHR '' '' # s) = w # go_fields s"
  by (simp add: go_fields_def fields_from_word is_space_def)

lemma go_fields_last: "no_space w \<Longrightarrow> w \<noteq> [] \<Longrightarrow> go_fields w = [w]"
  using fields_from_word [of w "[]" "[]"] by (simp add: go_fields_def)

lemma fields_from_spaces: "\<forall>c \<in> set s. is_space c \<Longrightarrow> fields_from w s = (if w = [] then [] else [rev w])"
  by (induction s arbitrary: w) auto

lemma fields_from_append_space:
  "\<forall>c \<in> set t. is_space c \<Longrightarrow> fields_from w (s @ t) = fields_from w s"
  by (induction s arbitrary: w) (auto simp: fields_from_spaces)

lemma fields_from_drop: "fields_from [] (dropWhile is_space s) = fields_from [] s"
  by (induction s) auto

lemma go_fields_trim [simp]: "go_fields (trim_space s) = go_fields s"
proof -
  let ?r = "dropWhile is_space s"
  have "?r = rev (dropWhile is_space (rev ?r)) @ rev (takeWhile is_space (rev ?r))"
    by (metis rev_append rev_rev_ident takeWhile_dropWhile_id)
  moreover have "\<forall>c \<in> set (rev (takeWhile is_space (rev ?r))). is_space c"
    using set_takeWhileD by fastforce
  ultimately have "go_fields (trim_space s) = fields_from [] ?r"
    using fields_from_append_space by (metis go_fields_def trim_space_def)
  then show ?thesis by (simp add: go_fields_def fields_from_drop)
qed

lemma trim_space_hd: "s \<noteq> [] \<Longrightarrow> \<not> is_space (hd s) \<Longrightarrow> \<exists>t. trim_space s = hd s # t"
proof -
  assume s: "s \<noteq> []" "\<not> is_space (hd s)"
  then obtain c t where ct: "s = c # t" "\<not> is_space c" by (cases s) auto
  then have "trim_space s = rev (dropWhile is_space (rev t @ [c]))" by (simp add: trim_space_def)
  also have "\<dots> = c # rev (dropWhile is_space (rev t))"
    using ct(2) dropWhile_append3 [of is_space c "rev t" "[]"] by simp
  finally show ?thesis using ct by simp
qed

lemma digit_no_space: "is_digit c \<Longrightarrow> \<not> is_space c"
  by (auto simp: is_digit_def is_space_def)

section \<open>Reading numbers\<close>

definition in_int64 :: "int \<Rightarrow> bool" where
  "in_int64 n \<longleftrightarrow> - (2 ^ 63) \<le> n \<and> n < 2 ^ 63"

text \<open>A sign and digits, as a 64-bit integer.\<close>

definition signed_val :: "string \<Rightarrow> string \<Rightarrow> int option" where
  "signed_val sign ds =
     (let n = (if sign = ''-'' then - int (dec_val ds) else int (dec_val ds))
      in if ds = [] \<or> \<not> in_int64 n then None else Some n)"

fun split_sign :: "string \<Rightarrow> string \<times> string" where
  "split_sign [] = ([], [])"
| "split_sign (c # cs) = (if c = CHR ''-'' \<or> c = CHR ''+'' then ([c], cs) else ([], c # cs))"

definition atoi :: "string \<Rightarrow> int option" where
  "atoi s = (let (sign, ds) = split_sign s in if list_all is_digit ds then signed_val sign ds else None)"

text \<open>
  \<open>Sscanf\<close> with the single verb: leading blanks are skipped (a newline is an error), then a
  sign and the longest run of digits are read; what follows is ignored.
\<close>

definition sscanf_d :: "string \<Rightarrow> int option" where
  "sscanf_d s =
     (let r = dropWhile (\<lambda>c. is_space c \<and> c \<noteq> CHR 0x0A) s;
          (sign, ds) = split_sign r
      in signed_val sign (takeWhile is_digit ds))"

lemma split_sign_digit: "s \<noteq> [] \<Longrightarrow> is_digit (hd s) \<Longrightarrow> split_sign s = ([], s)"
  by (cases s) (auto simp: is_digit_def)

lemma fmt_d_cases:
  obtains (nonneg) "0 \<le> n" "fmt_d n = itoa n" | (neg) "n < 0" "fmt_d n = CHR ''-'' # itoa (- n)"
  by (cases "n < 0") (auto simp: fmt_d_def)

lemma split_sign_fmt_d:
  "split_sign (fmt_d n) = (if n < 0 then ''-'' else [], itoa \<bar>n\<bar>)"
proof (cases "n < 0")
  case False
  then have "is_digit (hd (itoa n))" "itoa n \<noteq> []"
    using itoa_nonneg_digits [of "hd (itoa n)" n] itoa_nonempty [of n] by simp_all
  then show ?thesis using False by (simp add: fmt_d_def split_sign_digit)
qed (simp add: fmt_d_def)

lemma signed_val_itoa:
  "in_int64 n \<Longrightarrow> signed_val (if n < 0 then ''-'' else []) (itoa \<bar>n\<bar>) = Some n"
  by (auto simp: signed_val_def Let_def dec_val_itoa itoa_nonempty)

lemma itoa_all_digits: "list_all is_digit (itoa n)" "takeWhile is_digit (itoa n) = itoa n"
  using itoa_nonneg_digits by (auto simp: list_all_iff takeWhile_eq_all_conv)

lemma atoi_fmt_d: "in_int64 n \<Longrightarrow> atoi (fmt_d n) = Some n"
  by (simp only: atoi_def split_sign_fmt_d Let_def prod.case itoa_all_digits if_True signed_val_itoa)

lemma sscanf_fmt_d: "in_int64 n \<Longrightarrow> sscanf_d (fmt_d n) = Some n"
proof -
  assume n: "in_int64 n"
  have "\<not> is_space (hd (fmt_d n))" "fmt_d n \<noteq> []"
  proof -
    have "is_digit (hd (itoa \<bar>n\<bar>))" "itoa \<bar>n\<bar> \<noteq> []"
      using itoa_nonneg_digits [of "hd (itoa \<bar>n\<bar>)" "\<bar>n\<bar>"] itoa_nonempty [of "\<bar>n\<bar>"] by simp_all
    then show "\<not> is_space (hd (fmt_d n))" "fmt_d n \<noteq> []"
      by (auto simp: fmt_d_def digit_no_space) (simp add: is_space_def)
  qed
  then have "dropWhile (\<lambda>c. is_space c \<and> c \<noteq> CHR 0x0A) (fmt_d n) = fmt_d n"
    by (cases "fmt_d n") simp_all
  then show ?thesis
    using n by (simp only: sscanf_d_def split_sign_fmt_d Let_def prod.case itoa_all_digits signed_val_itoa)
qed

section \<open>Lines\<close>

text \<open>
  \<open>bufio.Scanner\<close> with its default split function and buffer: the lines without their ends
  (a carriage return before the newline is dropped, a last line without newline counts), up to
  the first line of 65536 bytes or more, which ends the scan with an error.
\<close>

definition drop_cr :: "string \<Rightarrow> string" where
  "drop_cr l = (if l \<noteq> [] \<and> last l = CHR 0x0D then butlast l else l)"

definition raw_lines :: "string \<Rightarrow> string list" where
  "raw_lines s =
     (let ls = split_on (CHR 0x0A) s in if last ls = [] then butlast ls else ls)"

definition scan_lines :: "string \<Rightarrow> string list \<times> bool" where
  "scan_lines s =
     (let ls = raw_lines s
      in (map drop_cr (takeWhile (\<lambda>l. length l < 65536) ls), \<exists>l \<in> set ls. \<not> length l < 65536))"

lemma raw_lines_append:
  assumes "s = [] \<or> last s = CHR 0x0A"
  shows "raw_lines (s @ t) = raw_lines s @ raw_lines t"
proof (cases "s = []")
  case False
  then obtain s' where s: "s = s' @ [CHR 0x0A]"
    using assms by (metis append_butlast_last_id)
  have "raw_lines s = split_on (CHR 0x0A) s'"
    using split_on_snoc_append [of _ s' "[]"] by (simp add: raw_lines_def s Let_def)
  moreover have "raw_lines (s @ t) = split_on (CHR 0x0A) s' @ raw_lines t"
    using split_on_snoc_append [of _ s' t] by (simp add: raw_lines_def s Let_def butlast_append)
  ultimately show ?thesis by simp
qed (simp add: raw_lines_def)

definition fits_line :: "string \<Rightarrow> bool" where
  "fits_line l \<longleftrightarrow> length l < 65536 \<and> CHR 0x0A \<notin> set l \<and> (l \<noteq> [] \<longrightarrow> last l \<noteq> CHR 0x0D)"

definition ends_line :: "string \<Rightarrow> bool" where
  "ends_line s \<longleftrightarrow> s = [] \<or> last s = CHR 0x0A"

lemma scan_lines_append:
  assumes "ends_line s" "\<not> snd (scan_lines s)"
  shows "fst (scan_lines (s @ t)) = fst (scan_lines s) @ fst (scan_lines t)"
    "snd (scan_lines (s @ t)) = snd (scan_lines t)"
proof -
  have all: "\<forall>l \<in> set (raw_lines s). length l < 65536" using assms(2) by (auto simp: scan_lines_def Let_def)
  then show "fst (scan_lines (s @ t)) = fst (scan_lines s) @ fst (scan_lines t)"
    "snd (scan_lines (s @ t)) = snd (scan_lines t)"
    using raw_lines_append [of s t] assms(1)
    by (auto simp: scan_lines_def Let_def ends_line_def iffD2 [OF takeWhile_eq_all_conv])
qed

lemma scan_lines_long_append:
  "ends_line s \<Longrightarrow> snd (scan_lines (s @ t)) \<longleftrightarrow> snd (scan_lines s) \<or> snd (scan_lines t)"
  using raw_lines_append [of s t] by (auto simp: scan_lines_def Let_def ends_line_def)

lemma ends_line_concat: "\<forall>c \<in> set cs. ends_line c \<Longrightarrow> ends_line (concat cs)"
  by (induction cs) (auto simp: ends_line_def last_append)

lemma scan_lines_snoc: "fits_line l \<Longrightarrow> scan_lines (l @ [CHR 0x0A]) = ([l], False)"
  using split_on_append [of "CHR 0x0A" l "[]"]
  by (auto simp: scan_lines_def raw_lines_def drop_cr_def fits_line_def)

lemma scan_lines_last: "fits_line l \<Longrightarrow> l \<noteq> [] \<Longrightarrow> scan_lines l = ([l], False)"
  using split_on_field [of "CHR 0x0A" l]
  by (auto simp: scan_lines_def raw_lines_def drop_cr_def fits_line_def)

text \<open>Lines written one per line are read back.\<close>

lemma scan_written_lines:
  "list_all fits_line ls \<Longrightarrow> scan_lines (concat (map (\<lambda>l. l @ [CHR 0x0A]) ls)) = (ls, False)"
proof (induction ls)
  case Nil
  show ?case by (simp add: scan_lines_def raw_lines_def)
next
  case (Cons l ls)
  have "ends_line (l @ [CHR 0x0A])" by (simp add: ends_line_def)
  moreover have "scan_lines (l @ [CHR 0x0A]) = ([l], False)"
    using Cons.prems by (simp add: scan_lines_snoc)
  ultimately show ?case
    using scan_lines_append [of "l @ [CHR 0x0A]" "concat (map (\<lambda>l. l @ [CHR 0x0A]) ls)"] Cons
    by (simp add: prod_eq_iff)
qed

end
