(* ===== verification/Net.thy ===== *)
theory Net
  imports Text
begin

unbundle bit_operations_syntax

text \<open>
  What the program uses of Go's \<open>net\<close> package: addresses as byte lists, the dotted form,
  \<open>net.ParseCIDR\<close>, masks, \<open>IPNet.Contains\<close> and \<open>IP.String\<close>. The text form of IPv6 addresses
  is a parameter: a parser to 16 bytes and a printer.
\<close>

section \<open>Addresses\<close>

type_synonym ip = "8 word list"

fun ip_val :: "ip \<Rightarrow> nat" where
  "ip_val [] = 0"
| "ip_val (b # bs) = unat b * 256 ^ length bs + ip_val bs"

definition parse_octet :: "string \<Rightarrow> 8 word option" where
  "parse_octet s =
     (if s = [] \<or> \<not> list_all is_digit s \<or> (hd s = CHR ''0'' \<and> length s > 1) \<or> dec_val s > 255 then None
      else Some (of_nat (dec_val s)))"

fun sequence_option :: "'a option list \<Rightarrow> 'a list option" where
  "sequence_option [] = Some []"
| "sequence_option (None # xs) = None"
| "sequence_option (Some x # xs) = map_option ((#) x) (sequence_option xs)"

definition parse_ipv4 :: "string \<Rightarrow> ip option" where
  "parse_ipv4 s =
     (let fs = split_on (CHR ''.'') s
      in if length fs = 4 then sequence_option (map parse_octet fs) else None)"

text \<open>The first of a dot, a colon and a percent sign decides the form.\<close>

definition parse_addr :: "(string \<Rightarrow> ip option) \<Rightarrow> string \<Rightarrow> ip option" where
  "parse_addr parse6 s =
     (case filter (\<lambda>c. c \<in> set ''.:%'') s of
        [] \<Rightarrow> None
      | c # _ \<Rightarrow> if c = CHR ''.'' then parse_ipv4 s else if c = CHR '':'' then parse6 s else None)"

definition format_ipv4 :: "ip \<Rightarrow> string" where
  "format_ipv4 bs = join ''.'' (map (\<lambda>b. fmt_d (uint b)) bs)"

text \<open>\<open>To4\<close>: a 4-byte address is itself, an IPv4-mapped address its last four bytes.\<close>

definition to4 :: "ip \<Rightarrow> ip option" where
  "to4 bs =
     (if length bs = 4 then Some bs
      else if length bs = 16 \<and> take 10 bs = replicate 10 0 \<and> bs ! 10 = 0xFF \<and> bs ! 11 = 0xFF
           then Some (drop 12 bs) else None)"

definition short_form :: "ip \<Rightarrow> ip" where
  "short_form bs = (case to4 bs of None \<Rightarrow> bs | Some x \<Rightarrow> x)"

definition format_ip :: "(ip \<Rightarrow> string) \<Rightarrow> ip \<Rightarrow> string" where
  "format_ip format6 bs = (case to4 bs of Some x \<Rightarrow> format_ipv4 x | None \<Rightarrow> format6 bs)"

section \<open>Networks\<close>

record ip_net =
  net_ip :: ip
  net_ones :: nat
  net_bits :: nat

text \<open>The bytes of \<open>CIDRMask\<close>, for a number of bytes.\<close>

fun mask_bytes :: "nat \<Rightarrow> nat \<Rightarrow> 8 word list" where
  "mask_bytes 0 k = []"
| "mask_bytes (Suc n) k =
     (if k \<ge> 8 then 0xFF # mask_bytes n (k - 8) else NOT (drop_bit k 0xFF) # mask_bytes n 0)"

definition apply_mask :: "ip \<Rightarrow> 8 word list \<Rightarrow> ip" where
  "apply_mask bs m = map2 (AND) bs m"

definition dtoi :: "string \<Rightarrow> nat option" where
  "dtoi s = (if s \<noteq> [] \<and> list_all is_digit s \<and> dec_val s < 0xFFFFFF then Some (dec_val s) else None)"

definition parse_cidr :: "(string \<Rightarrow> ip option) \<Rightarrow> string \<Rightarrow> ip_net option" where
  "parse_cidr parse6 s =
     (if CHR ''/'' \<notin> set s then None
      else let addr = takeWhile (\<lambda>c. c \<noteq> CHR ''/'') s; len = tl (dropWhile (\<lambda>c. c \<noteq> CHR ''/'') s)
           in case parse_addr parse6 addr of
                None \<Rightarrow> None
              | Some bs \<Rightarrow>
                  (case dtoi len of
                     None \<Rightarrow> None
                   | Some n \<Rightarrow>
                       if n > 8 * length bs then None
                       else Some \<lparr>net_ip = apply_mask bs (mask_bytes (length bs) n), net_ones = n,
                                  net_bits = 8 * length bs\<rparr>))"

definition net_contains :: "ip_net \<Rightarrow> ip \<Rightarrow> bool" where
  "net_contains n a =
     (let x = short_form a; nn = short_form (net_ip n);
          m = mask_bytes (net_bits n div 8) (net_ones n);
          m' = (if length m = 16 \<and> length nn = 4 then drop 12 m else m)
      in length x = length nn \<and> apply_mask nn m' = apply_mask x m')"

section \<open>Facts\<close>

lemma byte_less: "unat (b :: 8 word) < 256"
  using unsigned_less [of b, where 'a = nat] by simp

lemma digits_unique:
  fixes x y v w B :: nat
  assumes "v < B" "w < B" "x * B + v = y * B + w"
  shows "x = y \<and> v = w"
proof -
  have "(x * B + v) div B = x" "(y * B + w) div B = y" using assms(1,2) by simp_all
  then show ?thesis using assms(3) by simp
qed

lemma ip_val_less: "ip_val bs < 256 ^ length bs"
proof (induction bs)
  case (Cons b bs)
  have "unat b \<le> 255" using byte_less [of b] by simp
  then have "unat b * 256 ^ length bs \<le> 255 * 256 ^ length bs" by (rule mult_le_mono1)
  then have "unat b * 256 ^ length bs + ip_val bs < 256 * 256 ^ length bs" using Cons by linarith
  then show ?case by simp
qed simp

lemma ip_val_append: "ip_val (xs @ ys) = ip_val xs * 256 ^ length ys + ip_val ys"
  by (induction xs) (simp_all add: power_add algebra_simps)

lemma ip_val_inj: "length xs = length ys \<Longrightarrow> ip_val xs = ip_val ys \<Longrightarrow> xs = ys"
proof (induction xs arbitrary: ys)
  case (Cons x xs)
  then obtain y ys' where ys: "ys = y # ys'" "length xs = length ys'" by (cases ys) auto
  have eq: "unat x * 256 ^ length xs + ip_val xs = unat y * 256 ^ length xs + ip_val ys'"
    using Cons.prems(2) ys by simp
  have "ip_val xs < 256 ^ length xs" "ip_val ys' < 256 ^ length xs"
    using ip_val_less [of xs] ip_val_less [of ys'] ys(2) by simp_all
  with eq have "unat x = unat y \<and> ip_val xs = ip_val ys'" by (intro digits_unique)
  then show ?case using Cons.IH [of ys'] ys by (simp add: word_unat_eq_iff)
qed simp

lemma apply_mask_length [simp]: "length (apply_mask bs m) = min (length bs) (length m)"
  by (simp add: apply_mask_def)

lemma mask_bytes_length [simp]: "length (mask_bytes n k) = n"
  by (induction n k rule: mask_bytes.induct) auto

lemma mask_byte: "k < 8 \<Longrightarrow> NOT (drop_bit k 0xFF :: 8 word) = NOT (mask (8 - k))"
proof -
  assume "k < 8"
  have "(0xFF :: 8 word) = mask 8" by (simp add: mask_eq_exp_minus_1)
  then have "drop_bit k (0xFF :: 8 word) = mask (8 - k)"
    using \<open>k < 8\<close> by (auto simp: bit_eq_iff bit_simps)
  then show ?thesis by simp
qed

lemma mask_byte_eq:
  fixes a b :: "8 word"
  shows "a AND NOT (mask j) = b AND NOT (mask j) \<longleftrightarrow> unat a div 2 ^ j = unat b div 2 ^ j"
proof -
  have push: "c AND NOT (mask j) = push_bit j (drop_bit j c)" for c :: "8 word"
    by (rule bit_word_eqI) (auto simp: bit_simps)
  have drop: "unat (drop_bit j c) = unat c div 2 ^ j" for c :: "8 word"
    using unat_drop_bit_eq [of j c] by (simp add: drop_bit_eq_div)
  have again: "drop_bit j (push_bit j (drop_bit j c)) = drop_bit j c" for c :: "8 word"
    by (rule bit_word_eqI) (auto simp: bit_simps dest: bit_imp_le_length)
  have "a AND NOT (mask j) = b AND NOT (mask j) \<longleftrightarrow> drop_bit j a = drop_bit j b"
    unfolding push using again [of a] again [of b] by metis
  also have "\<dots> \<longleftrightarrow> unat (drop_bit j a) = unat (drop_bit j b)" by (rule word_unat_eq_iff)
  also have "\<dots> \<longleftrightarrow> unat a div 2 ^ j = unat b div 2 ^ j"
    unfolding drop ..
  finally show ?thesis .
qed

text \<open>Masking a byte string keeps its value up to the host bits.\<close>

lemma scaled_div:
  fixes v :: nat
  assumes "v < 256 ^ n"
  shows "j \<le> 8 * n \<Longrightarrow> (u * 256 ^ n + v) div 2 ^ j = u * 2 ^ (8 * n - j) + v div 2 ^ j \<and>
      v div 2 ^ j < 2 ^ (8 * n - j)"
    and "(u * 256 ^ n + v) div 2 ^ (8 * n + k) = u div 2 ^ k"
proof -
  have p: "(256 :: nat) ^ n = 2 ^ (8 * n)" by (simp add: power_mult)
  { assume j: "j \<le> 8 * n"
    then have split: "(2 :: nat) ^ (8 * n) = 2 ^ (8 * n - j) * 2 ^ j" by (simp add: power_add [symmetric])
    have "(u * 256 ^ n + v) div 2 ^ j = (u * 2 ^ (8 * n - j) * 2 ^ j + v) div 2 ^ j"
      by (simp add: p split mult.assoc)
    then have 1: "(u * 256 ^ n + v) div 2 ^ j = u * 2 ^ (8 * n - j) + v div 2 ^ j" by simp
    have "v div 2 ^ j < 2 ^ (8 * n - j)"
      using assms by (simp add: p split less_mult_imp_div_less)
    with 1 show "(u * 256 ^ n + v) div 2 ^ j = u * 2 ^ (8 * n - j) + v div 2 ^ j \<and>
      v div 2 ^ j < 2 ^ (8 * n - j)" .. }
  have "(u * 256 ^ n + v) div 2 ^ (8 * n + k) = (u * 256 ^ n + v) div 256 ^ n div 2 ^ k"
    by (simp add: power_add p div_mult2_eq)
  then show "(u * 256 ^ n + v) div 2 ^ (8 * n + k) = u div 2 ^ k" using assms by simp
qed

lemma apply_mask_eq:
  assumes "length xs = n" "length ys = n" "k \<le> 8 * n"
  shows "apply_mask xs (mask_bytes n k) = apply_mask ys (mask_bytes n k) \<longleftrightarrow>
    ip_val xs div 2 ^ (8 * n - k) = ip_val ys div 2 ^ (8 * n - k)"
  using assms
proof (induction n k arbitrary: xs ys rule: mask_bytes.induct)
  case (2 n k)
  obtain x xs' where xs: "xs = x # xs'" "length xs' = n" using 2(3) by (cases xs) auto
  obtain y ys' where ys: "ys = y # ys'" "length ys' = n" using 2(4) by (cases ys) auto
  have less: "ip_val xs' < 256 ^ n" "ip_val ys' < 256 ^ n"
    using ip_val_less [of xs'] ip_val_less [of ys'] xs ys by simp_all
  show ?case
  proof (cases "8 \<le> k")
    case True
    let ?j = "8 * Suc n - k"
    have j: "?j = 8 * n - (k - 8)" "?j \<le> 8 * n" using True by simp_all
    have "(0xFF :: 8 word) = - 1" by simp
    then have ff: "c AND 0xFF = c" for c :: "8 word" by (simp only: and.right_neutral)
    have "apply_mask xs (mask_bytes (Suc n) k) = apply_mask ys (mask_bytes (Suc n) k) \<longleftrightarrow>
        x = y \<and> ip_val xs' div 2 ^ ?j = ip_val ys' div 2 ^ ?j"
      using True 2(1) [OF True xs(2) ys(2)] 2(5) xs ys j by (simp add: apply_mask_def ff)
    also have "\<dots> \<longleftrightarrow> ip_val xs div 2 ^ ?j = ip_val ys div 2 ^ ?j"
      using scaled_div(1) [OF less(1) j(2)] scaled_div(1) [OF less(2) j(2)] xs ys
        digits_unique [of "ip_val xs' div 2 ^ ?j" _ "ip_val ys' div 2 ^ ?j" "unat x" "unat y"]
      by (auto simp: word_unat_eq_iff)
    finally show ?thesis .
  next
    case False
    have zero: "apply_mask us (mask_bytes n 0) = apply_mask vs (mask_bytes n 0)"
      if "length us = n" "length vs = n" for us vs
      using 2(2) [OF False that] ip_val_less [of us] ip_val_less [of vs] that
      by (simp add: power_mult)
    have e: "8 * Suc n - k = 8 * n + (8 - k)" using False by simp
    show ?thesis
      using False zero [OF xs(2) ys(2)] mask_byte [of k] mask_byte_eq [of x "8 - k" y]
        scaled_div(2) [OF less(1), of "unat x" "8 - k"] scaled_div(2) [OF less(2), of "unat y" "8 - k"] xs ys
      unfolding e by (simp add: apply_mask_def)
  qed
qed simp

lemma masked_byte: "unat (c AND NOT (mask j) :: 8 word) = unat c div 2 ^ j * 2 ^ j"
proof -
  have "c AND NOT (mask j) = push_bit j (drop_bit j c)"
    by (rule bit_word_eqI) (auto simp: bit_simps)
  then have "unat (c AND NOT (mask j)) = unat c div 2 ^ j * 2 ^ j mod 256"
    using unsigned_push_bit_eq [where 'a = nat, of j "drop_bit j c"] unat_drop_bit_eq [of j c]
    by (simp add: take_bit_eq_mod push_bit_eq_mult drop_bit_eq_div)
  moreover have "unat c div 2 ^ j * 2 ^ j < 256"
    using byte_less [of c] div_times_less_eq_dividend [of "unat c" "2 ^ j"] by linarith
  ultimately show ?thesis by simp
qed

lemma ip_val_mask:
  assumes "length xs = n" "k \<le> 8 * n"
  shows "ip_val (apply_mask xs (mask_bytes n k)) = ip_val xs div 2 ^ (8 * n - k) * 2 ^ (8 * n - k)"
  using assms
proof (induction n k arbitrary: xs rule: mask_bytes.induct)
  case (2 n k)
  obtain x xs' where xs: "xs = x # xs'" "length xs' = n" using 2(3) by (cases xs) auto
  have less: "ip_val xs' < 256 ^ n" using ip_val_less [of xs'] xs by simp
  have p: "(256 :: nat) ^ n = 2 ^ (8 * n)" by (simp add: power_mult)
  show ?case
  proof (cases "8 \<le> k")
    case True
    let ?j = "8 * Suc n - k"
    have j: "?j = 8 * n - (k - 8)" "?j \<le> 8 * n" using True by simp_all
    have "(0xFF :: 8 word) = - 1" by simp
    then have ff: "x AND 0xFF = x" by (simp only: and.right_neutral)
    have split: "(2 :: nat) ^ (8 * n) = 2 ^ (8 * n - ?j) * 2 ^ ?j" using j(2) by (simp add: power_add [symmetric])
    have "ip_val (apply_mask xs (mask_bytes (Suc n) k)) =
        unat x * 256 ^ n + ip_val xs' div 2 ^ ?j * 2 ^ ?j"
      using True 2(1) [OF True xs(2)] 2(4) xs j by (simp add: apply_mask_def ff)
    also have "\<dots> = (unat x * 2 ^ (8 * n - ?j) + ip_val xs' div 2 ^ ?j) * 2 ^ ?j"
      unfolding p split by (simp only: add_mult_distrib mult.assoc)
    also have "\<dots> = ip_val xs div 2 ^ ?j * 2 ^ ?j"
      using scaled_div(1) [OF less j(2), of "unat x"] xs by simp
    finally show ?thesis .
  next
    case False
    have z: "ip_val (apply_mask xs' (mask_bytes n 0)) = 0"
      using 2(2) [OF False xs(2)] less by (simp add: p)
    have e: "8 * Suc n - k = 8 * n + (8 - k)" using False by simp
    have "ip_val (apply_mask xs (mask_bytes (Suc n) k)) = unat x div 2 ^ (8 - k) * 2 ^ (8 - k) * 256 ^ n"
      using False z xs mask_byte [of k] masked_byte [of x "8 - k"] by (simp add: apply_mask_def)
    also have "\<dots> = ip_val xs div 2 ^ (8 * Suc n - k) * 2 ^ (8 * Suc n - k)"
      unfolding e using scaled_div(2) [OF less, of "unat x" "8 - k"] xs by (simp add: power_add p)
    finally show ?thesis .
  qed
qed (simp add: apply_mask_def)

lemma net_contains4:
  assumes "length (net_ip n) = 4" "length a = 4" "net_bits n = 32" "net_ones n \<le> 32"
  shows "net_contains n a \<longleftrightarrow>
    ip_val a div 2 ^ (32 - net_ones n) = ip_val (net_ip n) div 2 ^ (32 - net_ones n)"
  using assms apply_mask_eq [of "net_ip n" 4 a "net_ones n"]
  by (auto simp: net_contains_def short_form_def to4_def Let_def)

lemma parse_cidr_net:
  assumes "parse_cidr parse6 s = Some n"
  shows "net_ones n \<le> net_bits n" "net_bits n = 8 * length (net_ip n)"
    "ip_val (net_ip n) mod 2 ^ (net_bits n - net_ones n) = 0"
  using assms ip_val_mask by (auto simp: parse_cidr_def Let_def split: if_splits option.splits)

section \<open>Printing and parsing IPv4\<close>

lemma itoa_loop_hd: "0 < n \<Longrightarrow> hd (itoa_loop n []) \<noteq> CHR ''0''"
proof (induction n rule: less_induct)
  case (less n)
  show ?case
  proof (cases "n < 10")
    case True
    then have "n \<in> {1, 2, 3, 4, 5, 6, 7, 8, 9}" using less.prems by auto
    then show ?thesis by (auto simp: itoa_loop_step)
  next
    case False
    then have "hd (itoa_loop (n div 10) []) \<noteq> CHR ''0''" "itoa_loop (n div 10) [] \<noteq> []"
      using less.IH [of "n div 10"] itoa_loop_nonempty [of "n div 10"] by simp_all
    then show ?thesis
      unfolding itoa_loop_step [OF less.prems] by (simp only: hd_append2 not_False_eq_True)
  qed
qed

lemma parse_octet_fmt: "parse_octet (fmt_d (uint b)) = Some b"
proof -
  have f: "fmt_d (uint b) = itoa (uint b)" by (simp add: fmt_d_nonneg)
  have "hd (itoa (uint b)) \<noteq> CHR ''0'' \<or> length (itoa (uint b)) = 1"
  proof (cases "uint b = 0")
    case False
    then have "0 < nat (uint b)" using uint_ge_0 [of b] by linarith
    then show ?thesis using itoa_loop_hd [of "nat (uint b)"] False by (simp add: itoa_def)
  qed (simp add: itoa_def)
  then show ?thesis
    using byte_less [of b] itoa_nonempty [of "uint b"] itoa_all_digits(1) [of "uint b"] dec_val_itoa [of "uint b"]
    by (auto simp: parse_octet_def f)
qed

lemma sequence_parse: "sequence_option (map (\<lambda>b. parse_octet (fmt_d (uint b))) bs) = Some bs"
  by (induction bs) (simp_all add: parse_octet_fmt)

lemma parse_format_ipv4:
  assumes "length bs = 4"
  shows "parse_ipv4 (format_ipv4 bs) = Some bs"
proof -
  have "CHR ''.'' \<notin> set (fmt_d (uint b))" for b :: "8 word"
    using itoa_nonneg_digits [of "CHR ''.''"] by (auto simp: fmt_d_def is_digit_def)
  then have "split_on (CHR ''.'') (format_ipv4 bs) = map (\<lambda>b. fmt_d (uint b)) bs"
    using assms unfolding format_ipv4_def by (intro split_on_join) auto
  then show ?thesis
    using assms sequence_parse [of bs] by (simp add: parse_ipv4_def Let_def comp_def)
qed

end
