(* ===== verification/Shard.thy ===== *)
theory Shard
  imports Net
begin

text \<open>
  The distribution of networks over shards (\<open>internal/master/shard.go\<close>): greedy packing of
  the largest network first into the shard with the smallest total. Host counts and totals are
  64-bit integers, compared as signed values, with the wrap-around of \<open>+=\<close>. \<open>sort.Slice\<close> is
  not stable, so the sorted order is a parameter.
\<close>

section \<open>The model\<close>

type_synonym int64 = "64 word"

record cidr_host =
  ch_cidr :: string
  ch_hosts :: int64

definition maxInt64 :: int64 where
  "maxInt64 = 0x7FFFFFFFFFFFFFFF"

definition host_count :: "ip_net \<Rightarrow> int64" where
  "host_count n =
     (let hostBits = net_bits n - net_ones n; hosts = push_bit hostBits 1
      in if hostBits \<ge> 32 then maxInt64 else hosts)"

definition cidr_entry :: "(string \<Rightarrow> ip option) \<Rightarrow> string \<Rightarrow> cidr_host option" where
  "cidr_entry parse6 c =
     (case parse_cidr parse6 c of
        None \<Rightarrow> None
      | Some n \<Rightarrow> if net_bits n < net_ones n then None else Some \<lparr>ch_cidr = c, ch_hosts = host_count n\<rparr>)"

text \<open>The search for the smallest total: \<open>from i m\<close> continues at index \<open>i\<close> with minimum \<open>m\<close>.\<close>

fun min_from :: "int64 list \<Rightarrow> nat \<Rightarrow> nat \<Rightarrow> nat \<Rightarrow> nat" where
  "min_from totals 0 i m = m"
| "min_from totals (Suc k) i m =
     min_from totals k (Suc i) (if totals ! i <s totals ! m then i else m)"

definition min_idx :: "int64 list \<Rightarrow> nat" where
  "min_idx totals = min_from totals (length totals - 1) 1 0"

definition pack_one :: "cidr_host \<Rightarrow> string list list \<times> int64 list \<Rightarrow> string list list \<times> int64 list" where
  "pack_one e st =
     (let (shards, totals) = st; m = min_idx totals
      in (shards[m := shards ! m @ [ch_cidr e]], totals[m := totals ! m + ch_hosts e]))"

definition pack :: "cidr_host list \<Rightarrow> nat \<Rightarrow> string list list \<times> int64 list" where
  "pack es n = fold pack_one es (replicate n [], replicate n 0)"

text \<open>The fallback: CIDR number \<open>i\<close> goes to shard \<open>i % shardCount\<close>.\<close>

fun round_robin :: "nat \<Rightarrow> nat \<Rightarrow> string list \<Rightarrow> string list list \<Rightarrow> string list list" where
  "round_robin n i [] shards = shards"
| "round_robin n i (c # cs) shards =
     round_robin n (Suc i) cs (shards[i mod n := shards ! (i mod n) @ [c]])"

definition distribute_cidrs ::
  "(cidr_host list \<Rightarrow> cidr_host list) \<Rightarrow> (string \<Rightarrow> ip option) \<Rightarrow> string list \<Rightarrow> int \<Rightarrow> string list list" where
  "distribute_cidrs sort_hosts parse6 cidrs shardCount =
     (if shardCount \<le> 1 then [cidrs]
      else let entries = List.map_filter (cidr_entry parse6) cidrs; n = nat shardCount
           in if entries = [] then round_robin n 0 cidrs (replicate n [])
              else fst (pack (sort_hosts entries) n))"

text \<open>What \<open>sort.Slice\<close> promises: a permutation in which no later entry has more hosts.\<close>

definition sorts_by_hosts :: "(cidr_host list \<Rightarrow> cidr_host list) \<Rightarrow> bool" where
  "sorts_by_hosts f \<longleftrightarrow>
     (\<forall>es. mset (f es) = mset es \<and> sorted_wrt (\<lambda>a b. \<not> ch_hosts a <s ch_hosts b) (f es))"

section \<open>Packing keeps every network once\<close>

lemma min_from_less:
  "m < length ts \<Longrightarrow> i + k \<le> length ts \<Longrightarrow> min_from ts k i m < length ts"
  by (induction k arbitrary: i m) auto

lemma min_idx_less: "ts \<noteq> [] \<Longrightarrow> min_idx ts < length ts"
  unfolding min_idx_def by (rule min_from_less) (cases ts; simp)+

lemma mset_concat_update:
  "i < length xss \<Longrightarrow> mset (concat (xss[i := xss ! i @ [x]])) = add_mset x (mset (concat xss))"
  by (induction xss arbitrary: i) (auto split: nat.split)

lemma pack_one_lengths:
  assumes "length shards = n" "length totals = n" "0 < n" "pack_one e (shards, totals) = (shards', totals')"
  shows "length shards' = n \<and> length totals' = n \<and> mset (concat shards') = add_mset (ch_cidr e) (mset (concat shards))"
proof -
  have m: "min_idx totals < length shards" using assms(1-3) min_idx_less [of totals] by fastforce
  show ?thesis
    using assms mset_concat_update [OF m, of "ch_cidr e"] by (auto simp: pack_one_def Let_def)
qed

lemma pack_from:
  assumes "length shards = n" "length totals = n" "0 < n"
  shows "length (fst (fold pack_one es (shards, totals))) = n \<and>
    length (snd (fold pack_one es (shards, totals))) = n \<and>
    mset (concat (fst (fold pack_one es (shards, totals)))) = mset (concat shards) + mset (map ch_cidr es)"
  using assms
proof (induction es arbitrary: shards totals)
  case (Cons e es)
  obtain s' t' where p: "pack_one e (shards, totals) = (s', t')" by fastforce
  show ?case
    using pack_one_lengths [OF Cons.prems p] Cons.IH [of s' t'] Cons.prems(3) p by simp
qed simp

lemma round_robin_keeps:
  assumes "length shards = n" "0 < n"
  shows "length (round_robin n i cs shards) = n \<and>
    mset (concat (round_robin n i cs shards)) = mset (concat shards) + mset cs"
  using assms
proof (induction cs arbitrary: i shards)
  case (Cons c cs)
  let ?s = "shards[i mod n := shards ! (i mod n) @ [c]]"
  have "mset (concat ?s) = add_mset c (mset (concat shards))"
    using Cons.prems by (intro mset_concat_update) simp
  then show ?case using Cons.IH [of ?s "Suc i"] Cons.prems by simp
qed simp

lemma cidr_entry_eq:
  "cidr_entry parse6 c = map_option (\<lambda>n. \<lparr>ch_cidr = c, ch_hosts = host_count n\<rparr>) (parse_cidr parse6 c)"
  using parse_cidr_net(1) by (fastforce simp: cidr_entry_def split: option.split)

lemma entry_cidrs:
  "map ch_cidr (List.map_filter (cidr_entry parse6) cs) = filter (\<lambda>c. parse_cidr parse6 c \<noteq> None) cs"
  by (induction cs) (auto simp: map_filter_def cidr_entry_eq)

section \<open>Balance\<close>

lemma min_from_spec:
  "m < length ts \<Longrightarrow> i + k \<le> length ts \<Longrightarrow> (\<forall>j < i. sint (ts ! m) \<le> sint (ts ! j)) \<Longrightarrow>
   j < i + k \<Longrightarrow> sint (ts ! (min_from ts k i m)) \<le> sint (ts ! j)"
proof (induction k arbitrary: i m)
  case (Suc k)
  let ?m = "if ts ! i <s ts ! m then i else m"
  have "\<forall>j < Suc i. sint (ts ! ?m) \<le> sint (ts ! j)"
    using Suc.prems(3) by (auto simp: word_sless_alt less_Suc_eq intro: order.trans less_imp_le)
  moreover have "?m < length ts" using Suc.prems(1,2) by simp
  ultimately have "sint (ts ! (min_from ts k (Suc i) ?m)) \<le> sint (ts ! j)"
    using Suc.prems(2,4) by (intro Suc.IH) simp_all
  then show ?case by simp
qed simp

lemma min_idx_spec: "j < length ts \<Longrightarrow> sint (ts ! min_idx ts) \<le> sint (ts ! j)"
  unfolding min_idx_def by (rule min_from_spec [where i = 1]) (cases ts; auto)+

text \<open>The load of a shard as an unbounded number, from the networks it contains.\<close>

definition cidr_hosts :: "(string \<Rightarrow> ip option) \<Rightarrow> string \<Rightarrow> int" where
  "cidr_hosts parse6 c = (case parse_cidr parse6 c of None \<Rightarrow> 0 | Some n \<Rightarrow> uint (host_count n))"

definition load :: "(string \<Rightarrow> ip option) \<Rightarrow> string list \<Rightarrow> int" where
  "load parse6 cs = sum_list (map (cidr_hosts parse6) cs)"

lemma load_snoc [simp]: "load parse6 (cs @ [c]) = load parse6 cs + cidr_hosts parse6 c"
  by (simp add: load_def)

lemma load_nonneg: "0 \<le> load parse6 cs"
  by (auto simp: load_def cidr_hosts_def intro!: sum_list_nonneg split: option.split)

lemma load_member: "i < length shards \<Longrightarrow> load parse6 (shards ! i) \<le> load parse6 (concat shards)"
proof -
  assume i: "i < length shards"
  have "load parse6 (concat xss) = sum_list (map (load parse6) xss)" for xss
    by (induction xss) (simp_all add: load_def)
  moreover have "load parse6 (shards ! i) \<le> sum_list (map (load parse6) shards)"
    using i load_nonneg by (intro member_le_sum_list) auto
  ultimately show ?thesis by simp
qed

text \<open>
  Balanced up to \<open>m\<close>: the totals are the loads, below \<open>2 ^ 63\<close>, and no two loads are more than
  \<open>m\<close> apart.
\<close>

definition balanced :: "(string \<Rightarrow> ip option) \<Rightarrow> int \<Rightarrow> string list list \<Rightarrow> int64 list \<Rightarrow> bool" where
  "balanced parse6 m shards totals \<longleftrightarrow> length totals = length shards \<and>
     (\<forall>i < length shards. sint (totals ! i) = load parse6 (shards ! i)) \<and>
     (\<forall>i < length shards. \<forall>j < length shards. load parse6 (shards ! i) \<le> load parse6 (shards ! j) + m)"

lemma sint_add_small:
  fixes a b :: int64
  assumes "0 \<le> sint a" "sint a + uint b < 2 ^ 63"
  shows "sint (a + b) = sint a + uint b"
proof -
  have less: "uint a < 2 ^ 64" using unsigned_less [where 'a = int, of a] by simp
  then have "take_bit 64 (uint a) = uint a" by (intro take_bit_int_eq_self) simp_all
  then have s: "sint a = uint a - 2 ^ 64 * of_bool (bit (uint a) 63)"
    using signed_take_bit_eq_take_bit_minus [of 63 "uint a"] by (simp add: sint_uint)
  have a: "sint a = uint a" using s less assms(1) by (cases "bit (uint a) 63") simp_all
  then have sum: "uint (a + b) = uint a + uint b"
    using assms(2) by (simp add: uint_word_of_int_eq uint_word_ariths)
  have "signed_take_bit 63 (uint a + uint b) = uint a + uint b"
    using assms(2) a uint_ge_0 [of a] uint_ge_0 [of b] by (intro signed_take_bit_int_eq_self; linarith)
  then show ?thesis using sum a by (simp add: sint_uint)
qed

lemma gap_step:
  fixes a b h m :: int
  assumes "a \<le> b + m" "P \<Longrightarrow> a \<le> b" "0 \<le> h" "h \<le> m"
  shows "a + (if P then h else 0) \<le> b + (if Q then h else 0) + m"
  using assms by auto

lemma balanced_pack_one:
  assumes "balanced parse6 m shards totals" "shards \<noteq> []"
    and "parse_cidr parse6 (ch_cidr e) = Some n" "ch_hosts e = host_count n"
    and "uint (ch_hosts e) \<le> m" "load parse6 (concat shards) + uint (ch_hosts e) < 2 ^ 63"
  shows "case pack_one e (shards, totals) of (s', t') \<Rightarrow> balanced parse6 m s' t'"
proof -
  let ?k = "min_idx totals"
  have len: "length totals = length shards" using assms(1) by (simp add: balanced_def)
  then have k: "?k < length shards" using min_idx_less [of totals] assms(2) by fastforce
  have tot: "sint (totals ! i) = load parse6 (shards ! i)" if "i < length shards" for i
    using assms(1) that by (simp add: balanced_def)
  have small: "load parse6 (shards ! ?k) + uint (ch_hosts e) < 2 ^ 63"
    using assms(6) load_member [OF k, of parse6] by linarith
  then have new: "sint (totals ! ?k + ch_hosts e) = load parse6 (shards ! ?k) + uint (ch_hosts e)"
    using tot [OF k] load_nonneg [of parse6 "shards ! ?k"] by (simp add: sint_add_small)
  have least: "load parse6 (shards ! ?k) \<le> load parse6 (shards ! j)" if "j < length shards" for j
    using min_idx_spec [of j totals] len that tot [OF k] tot [OF that] by simp
  have near: "load parse6 (shards ! i) \<le> load parse6 (shards ! j) + m" if "i < length shards" "j < length shards" for i j
    using assms(1) that by (simp add: balanced_def)
  have h: "cidr_hosts parse6 (ch_cidr e) = uint (ch_hosts e)" using assms(3,4) by (simp add: cidr_hosts_def)
  let ?s = "shards[?k := shards ! ?k @ [ch_cidr e]]" and ?t = "totals[?k := totals ! ?k + ch_hosts e]"
  have loads: "load parse6 (?s ! i) = load parse6 (shards ! i) + (if i = ?k then uint (ch_hosts e) else 0)"
    if "i < length shards" for i
    using that h by (simp add: nth_list_update)
  have "sint (?t ! i) = load parse6 (?s ! i)" if "i < length shards" for i
    unfolding loads [OF that] using that tot [OF that] new len by (simp add: nth_list_update)
  moreover have "load parse6 (?s ! i) \<le> load parse6 (?s ! j) + m"
    if ij: "i < length shards" "j < length shards" for i j
  proof -
    note pos = uint_ge_0 [of "ch_hosts e"]
    show ?thesis
      unfolding loads [OF ij(1)] loads [OF ij(2)]
      using near [OF ij] least [OF ij(2)] assms(5) pos
      by (intro gap_step) simp_all
  qed
  ultimately show ?thesis using len by (simp add: balanced_def pack_one_def Let_def)
qed

lemma balanced_pack_from:
  assumes "balanced parse6 m shards totals" "shards \<noteq> []"
    and "\<forall>e \<in> set es. \<exists>n. parse_cidr parse6 (ch_cidr e) = Some n \<and> ch_hosts e = host_count n \<and> uint (host_count n) \<le> m"
    and "load parse6 (concat shards) + load parse6 (map ch_cidr es) < 2 ^ 63"
  shows "balanced parse6 m (fst (fold pack_one es (shards, totals))) (snd (fold pack_one es (shards, totals)))"
  using assms
proof (induction es arbitrary: shards totals)
  case (Cons e es)
  obtain n where n: "parse_cidr parse6 (ch_cidr e) = Some n" "ch_hosts e = host_count n" "uint (host_count n) \<le> m"
    using Cons.prems(3) by auto
  obtain s' t' where p: "pack_one e (shards, totals) = (s', t')" by fastforce
  have h: "cidr_hosts parse6 (ch_cidr e) = uint (ch_hosts e)" using n by (simp add: cidr_hosts_def)
  have sum: "load parse6 (concat shards) + uint (ch_hosts e) + load parse6 (map ch_cidr es) < 2 ^ 63"
    using Cons.prems(4) h by (simp add: load_def)
  then have "load parse6 (concat shards) + uint (ch_hosts e) < 2 ^ 63"
    using load_nonneg [of parse6 "map ch_cidr es"] by linarith
  then have b: "balanced parse6 m s' t'"
    using balanced_pack_one [OF Cons.prems(1,2) n(1,2)] n p by simp
  have "length totals = length shards" using Cons.prems(1) by (simp add: balanced_def)
  then have k: "length s' = length shards" "mset (concat s') = add_mset (ch_cidr e) (mset (concat shards))"
    using pack_one_lengths [OF refl _ _ p] Cons.prems(2) by simp_all
  have "load parse6 (concat s') = sum_mset (image_mset (cidr_hosts parse6) (mset (concat s')))"
    unfolding load_def by (metis mset_map sum_mset_sum_list)
  also have "\<dots> = load parse6 (concat shards) + uint (ch_hosts e)"
    unfolding k(2) load_def using h by simp (metis mset_map sum_mset_sum_list mset_concat)
  finally have "load parse6 (concat s') + load parse6 (map ch_cidr es) < 2 ^ 63" using sum by simp
  moreover have "s' \<noteq> []" using k(1) Cons.prems(2) by auto
  ultimately show ?case using Cons.IH [OF b] Cons.prems(3) p by simp
qed simp

section \<open>Properties\<close>

text \<open>
  C27. Distribution over two or more shards returns exactly that many shards, and puts every
  CIDR that parses into exactly one of them, as often as it was given; the ones that do not
  parse are dropped, unless none parses, when all are distributed as they are.
\<close>

theorem distribute_partitions:
  fixes cidrs :: "string list" and parse6 :: "string \<Rightarrow> ip option"
  defines "valid \<equiv> filter (\<lambda>c. parse_cidr parse6 c \<noteq> None) cidrs"
  assumes sorts: "sorts_by_hosts sort_hosts" and two: "2 \<le> shardCount"
  shows "length (distribute_cidrs sort_hosts parse6 cidrs shardCount) = nat shardCount \<and>
    mset (concat (distribute_cidrs sort_hosts parse6 cidrs shardCount)) =
      mset (if valid = [] then cidrs else valid)"
proof -
  let ?es = "List.map_filter (cidr_entry parse6) cidrs" and ?n = "nat shardCount"
  have n: "0 < ?n" using two by simp
  have v: "map ch_cidr ?es = valid" unfolding valid_def by (rule entry_cidrs)
  then have e: "?es = [] \<longleftrightarrow> valid = []" by (metis map_is_Nil_conv)
  have "mset (map ch_cidr (sort_hosts ?es)) = mset valid"
    using sorts v by (simp add: sorts_by_hosts_def) (metis mset_map)
  then show ?thesis
    using pack_from [of "replicate ?n []" ?n "replicate ?n 0" "sort_hosts ?es"] n e two
      round_robin_keeps [of "replicate ?n []" ?n 0 cidrs]
    by (auto simp: distribute_cidrs_def Let_def pack_def)
qed

definition hosts_order :: "cidr_host list \<Rightarrow> cidr_host list" where
  "hosts_order es = rev (sort_key (\<lambda>e. sint (ch_hosts e)) es)"

lemma hosts_order_sorts: "sorts_by_hosts hosts_order"
proof -
  have "sorted_wrt (\<lambda>a b. \<not> ch_hosts b <s ch_hosts a) (sort_key (\<lambda>e. sint (ch_hosts e)) es)"
    for es :: "cidr_host list"
  proof -
    have "sorted_wrt (\<lambda>a b. sint (ch_hosts a) \<le> sint (ch_hosts b)) (sort_key (\<lambda>e. sint (ch_hosts e)) es)"
      using sorted_sort_key [of "\<lambda>e. sint (ch_hosts e)" es] by (simp add: sorted_map)
    then show ?thesis
      by (rule sorted_wrt_mono_rel [rotated]) (simp add: word_sless_alt)
  qed
  then show ?thesis by (simp add: sorts_by_hosts_def hosts_order_def sorted_wrt_rev)
qed

theorem distribute_partitions_witness:
  "mset (concat (distribute_cidrs hosts_order (\<lambda>_. None) [''10.0.0.0/24'', ''x'', ''10.1.0.0/16''] 2)) =
     mset [''10.0.0.0/24'', ''10.1.0.0/16'']"
proof -
  have "parse_cidr (\<lambda>_. None) ''x'' = None" by (simp add: parse_cidr_def)
  moreover have "parse_cidr (\<lambda>_. None) ''10.0.0.0/24'' \<noteq> None" "parse_cidr (\<lambda>_. None) ''10.1.0.0/16'' \<noteq> None"
    by (simp_all add: parse_cidr_def parse_addr_def parse_ipv4_def parse_octet_def is_digit_def dtoi_def
        dec_val_def digit_val_def Let_def)
  ultimately show ?thesis
    using conjunct2 [OF distribute_partitions [OF hosts_order_sorts, of 2 "\<lambda>_. None" "[''10.0.0.0/24'', ''x'', ''10.1.0.0/16'']"]]
    by simp
qed


text \<open>
  C28. As long as all host counts together stay below \<open>2 ^ 63\<close>, the greedy packing is balanced:
  the loads of any two shards differ by at most the size of the largest network.
\<close>

theorem distribute_balances:
  assumes "sorts_by_hosts sort_hosts" and "2 \<le> shardCount"
    and "load parse6 cidrs < 2 ^ 63" and "0 \<le> m" "\<forall>c \<in> set cidrs. cidr_hosts parse6 c \<le> m"
    and "a \<in> set (distribute_cidrs sort_hosts parse6 cidrs shardCount)"
    and "b \<in> set (distribute_cidrs sort_hosts parse6 cidrs shardCount)"
  shows "load parse6 a \<le> load parse6 b + m"
proof -
  let ?es = "List.map_filter (cidr_entry parse6) cidrs" and ?n = "nat shardCount"
  let ?d = "distribute_cidrs sort_hosts parse6 cidrs shardCount"
  show ?thesis
  proof (cases "?es = []")
    case True
    then have "\<forall>c \<in> set cidrs. cidr_hosts parse6 c = 0"
      by (auto simp: map_filter_def filter_empty_conv cidr_entry_eq cidr_hosts_def)
    moreover have "mset (concat ?d) = mset cidrs"
      using True assms(2) round_robin_keeps [of "replicate ?n []" ?n 0 cidrs]
      by (simp add: distribute_cidrs_def Let_def)
    then have "set a \<subseteq> set cidrs"
      using assms(6) by (metis UN_upper mset_eq_setD set_concat)
    ultimately have "\<forall>c \<in> set a. cidr_hosts parse6 c = 0" by blast
    then have "load parse6 a = 0" by (induction a) (simp_all add: load_def)
    then show ?thesis using load_nonneg [of parse6 b] assms(4) by linarith
  next
    case False
    let ?se = "sort_hosts ?es"
    have ms: "mset ?se = mset ?es" using assms(1) by (simp add: sorts_by_hosts_def)
    have "load parse6 (map ch_cidr ?se) = sum_mset (image_mset (cidr_hosts parse6 \<circ> ch_cidr) (mset ?es))"
      unfolding load_def ms [symmetric] by (simp add: sum_mset_sum_list [symmetric] comp_def)
    also have "\<dots> = load parse6 (map ch_cidr ?es)"
      unfolding load_def by (simp add: sum_mset_sum_list [symmetric] comp_def)
    also have "\<dots> = load parse6 cidrs"
      unfolding entry_cidrs by (induction cidrs) (auto simp: load_def cidr_hosts_def)
    finally have total: "load parse6 (concat (replicate ?n [])) + load parse6 (map ch_cidr ?se) < 2 ^ 63"
      using assms(3) by (simp add: load_def)
    have "\<exists>n. parse_cidr parse6 (ch_cidr e) = Some n \<and> ch_hosts e = host_count n \<and> uint (host_count n) \<le> m"
      if "e \<in> set ?se" for e
    proof -
      have "e \<in> set ?es" using that ms by (metis mset_eq_setD)
      then obtain c n where "c \<in> set cidrs" "parse_cidr parse6 c = Some n" "e = \<lparr>ch_cidr = c, ch_hosts = host_count n\<rparr>"
        by (auto simp: map_filter_def cidr_entry_eq)
      then show ?thesis using assms(5) by (auto simp: cidr_hosts_def)
    qed
    moreover have "balanced parse6 m (replicate ?n []) (replicate ?n 0)"
      using assms(4) by (simp add: balanced_def load_def)
    moreover have "replicate ?n ([] :: string list) \<noteq> []" using assms(2) by simp
    ultimately have "balanced parse6 m (fst (pack ?se ?n)) (snd (pack ?se ?n))"
      unfolding pack_def using total by (intro balanced_pack_from) auto
    moreover have "?d = fst (pack ?se ?n)" using False assms(2) by (simp add: distribute_cidrs_def Let_def)
    ultimately show ?thesis using assms(6,7) by (auto simp: balanced_def in_set_conv_nth)
  qed
qed

lemmas parse_simps = parse_cidr_def parse_addr_def parse_ipv4_def parse_octet_def is_digit_def dtoi_def
  dec_val_def digit_val_def Let_def

theorem distribute_balances_witness:
  "let d = distribute_cidrs hosts_order (\<lambda>_. None) [''10.0.0.0/24'', ''10.1.0.0/24'', ''10.2.0.0/25''] 2
   in \<forall>a \<in> set d. \<forall>b \<in> set d. load (\<lambda>_. None) a \<le> load (\<lambda>_. None) b + 256"
proof -
  have h: "cidr_hosts (\<lambda>_. None) ''10.0.0.0/24'' = 256" "cidr_hosts (\<lambda>_. None) ''10.1.0.0/24'' = 256"
    "cidr_hosts (\<lambda>_. None) ''10.2.0.0/25'' = 128"
    by (simp_all add: cidr_hosts_def host_count_def parse_simps)
  have le: "\<forall>c \<in> set [''10.0.0.0/24'', ''10.1.0.0/24'', ''10.2.0.0/25'']. cidr_hosts (\<lambda>_. None) c \<le> 256"
    by (simp only: list.set ball_simps h) simp
  have total: "load (\<lambda>_. None) [''10.0.0.0/24'', ''10.1.0.0/24'', ''10.2.0.0/25''] < 2 ^ 63"
    by (simp only: load_def list.map h) simp
  show ?thesis
    unfolding Let_def by (intro ballI distribute_balances [OF hosts_order_sorts _ total _ le]) simp_all
qed

text \<open>
  C29. With networks of \<open>2 ^ 32\<close> hosts or more (IPv6 prefixes of length up to 96), which all
  count as the largest 64-bit integer, two shards are not balanced at all: after the first two
  networks no total compares as larger than the second shard's, whatever it wraps to, and every
  further network goes to the first shard.
\<close>

theorem huge_networks_pile_up:
  assumes "sorts_by_hosts sort_hosts" and "2 \<le> length cidrs"
    and huge: "\<forall>c \<in> set cidrs. \<exists>n. parse_cidr parse6 c = Some n \<and> net_ones n + 32 \<le> net_bits n"
  shows "map length (distribute_cidrs sort_hosts parse6 cidrs 2) = [length cidrs - 1, 1]"
proof -
  let ?es = "sort_hosts (List.map_filter (cidr_entry parse6) cidrs)"
  have ms: "mset ?es = mset (List.map_filter (cidr_entry parse6) cidrs)"
    using assms(1) by (simp add: sorts_by_hosts_def)
  have max: "ch_hosts e = maxInt64" if "e \<in> set ?es" for e
  proof -
    have "e \<in> set (List.map_filter (cidr_entry parse6) cidrs)" using that ms by (metis mset_eq_setD)
    then obtain c n where "c \<in> set cidrs" "parse_cidr parse6 c = Some n" "e = \<lparr>ch_cidr = c, ch_hosts = host_count n\<rparr>"
      by (auto simp: map_filter_def cidr_entry_eq)
    then show ?thesis using huge by (auto simp: host_count_def Let_def)
  qed
  have "length (List.map_filter (cidr_entry parse6) cidrs) = length cidrs"
    using huge by (induction cidrs) (auto simp: map_filter_def cidr_entry_eq)
  then have len: "length ?es = length cidrs" using ms by (metis size_mset)
  then obtain e1 e2 es where es: "?es = e1 # e2 # es"
    using assms(2) by (metis Suc_le_length_iff numeral_2_eq_2)
  have rest: "fst (fold pack_one xs ([as, bs], [t, maxInt64])) = [as @ map ch_cidr xs, bs]" for xs as bs t
  proof (induction xs arbitrary: as t)
    case (Cons x xs)
    have "sint t \<le> sint maxInt64" using sint_lt [of t] by (simp add: maxInt64_def)
    then have "\<not> maxInt64 <s t" by (simp add: word_sless_alt)
    then have "min_idx [t, maxInt64] = 0" by (simp add: min_idx_def)
    then show ?case using Cons by (simp add: pack_one_def Let_def)
  qed simp
  have "min_idx [0, 0] = 0" "min_idx [maxInt64, 0] = 1"
    by (simp_all add: min_idx_def maxInt64_def word_sless_alt)
  then have "fst (pack ?es 2) = [ch_cidr e1 # map ch_cidr es, [ch_cidr e2]]"
    using max [of e1] max [of e2] rest [of es "[ch_cidr e1]" "[ch_cidr e2]"] es
    by (simp add: pack_def pack_one_def numeral_2_eq_2)
  moreover have "List.map_filter (cidr_entry parse6) cidrs \<noteq> []" using len es ms by auto
  ultimately show ?thesis using len es by (simp add: distribute_cidrs_def Let_def)
qed

theorem huge_networks_pile_up_witness:
  "map length (distribute_cidrs hosts_order (\<lambda>_. Some (replicate 16 0)) [''::/64'', ''1::/48'', ''2::/96'', ''3::/32''] 2) =
     [3, 1]"
proof -
  have "length [''::/64'', ''1::/48'', ''2::/96'', ''3::/32''] - 1 = (3 :: nat)" by simp
  moreover have "\<forall>c \<in> set [''::/64'', ''1::/48'', ''2::/96'', ''3::/32''].
      \<exists>n. parse_cidr (\<lambda>_. Some (replicate 16 0)) c = Some n \<and> net_ones n + 32 \<le> net_bits n"
    by (simp add: parse_simps)
  ultimately show ?thesis
    using huge_networks_pile_up [OF hosts_order_sorts, of "[''::/64'', ''1::/48'', ''2::/96'', ''3::/32'']"
        "\<lambda>_. Some (replicate 16 0)"] by simp
qed

end
