(* ===== verification/Masscan.thy ===== *)
theory Masscan
  imports Text
begin

text \<open>
  The wrapper around the masscan tool (\<open>internal/masscan/masscan.go\<close>): how it is called, how
  its output file is parsed, and how \<open>RunStreaming\<close> follows the file while it grows. The
  operating system (the path lookup, temporary files, the process) is a parameter.
\<close>

section \<open>Configuration and command line\<close>

record masscan_result =
  mr_ip :: string
  mr_port :: int

record masscan_config =
  mc_rate :: int
  mc_ports :: "int list"
  mc_cidrs :: "string list"
  mc_ips :: "string list"
  mc_timeout :: int

definition default_config :: masscan_config where
  "default_config = \<lparr>mc_rate = 15000, mc_ports = [443, 8443], mc_cidrs = [], mc_ips = [], mc_timeout = 30\<rparr>"

datatype run_error =
    NotFound | TempDirFailed | WriteFailed | NoTargets | CommandFailed | StartFailed | OpenFailed | ScanFailed

text \<open>The contents \<open>writeLines\<close> gives a file.\<close>

definition write_lines :: "string list \<Rightarrow> string" where
  "write_lines ls = concat (map (\<lambda>l. l @ [CHR 0x0A]) ls)"

definition masscan_args :: "masscan_config \<Rightarrow> string \<Rightarrow> string \<Rightarrow> string list" where
  "masscan_args cfg input output =
     [''-iL'', input, ''-p'', join '','' (map fmt_d (mc_ports cfg)), ''--rate'', fmt_d (mc_rate cfg),
      ''-oL'', output]"

text \<open>The lines of the input file: IPs when there are any, else CIDRs, else an error.\<close>

definition scan_targets :: "masscan_config \<Rightarrow> string list option" where
  "scan_targets cfg =
     (if mc_ips cfg \<noteq> [] then Some (mc_ips cfg)
      else if mc_cidrs cfg \<noteq> [] then Some (mc_cidrs cfg) else None)"

section \<open>Parsing the output file\<close>

text \<open>One line: \<open>open tcp PORT IP TIMESTAMP\<close>.\<close>

definition parse_line :: "string \<Rightarrow> masscan_result option" where
  "parse_line text =
     (let line = trim_space text
      in if line = [] \<or> has_prefix line ''#'' then None
         else let fields = go_fields line
              in if length fields < 4 then None
                 else if fields ! 0 \<noteq> ''open'' \<or> fields ! 1 \<noteq> ''tcp'' then None
                 else case atoi (fields ! 2) of
                        None \<Rightarrow> None
                      | Some port \<Rightarrow> Some \<lparr>mr_ip = fields ! 3, mr_port = port\<rparr>)"

text \<open>The loop over the lines, with the set \<open>seen\<close>: the first result of each IP is kept.\<close>

fun collect :: "string set \<Rightarrow> string list \<Rightarrow> masscan_result list" where
  "collect seen [] = []"
| "collect seen (l # ls) =
     (case parse_line l of
        None \<Rightarrow> collect seen ls
      | Some r \<Rightarrow> if mr_ip r \<in> seen then collect seen ls
                  else r # collect (insert (mr_ip r) seen) ls)"

definition parse_masscan_output :: "string option \<Rightarrow> masscan_result list \<times> run_error option" where
  "parse_masscan_output file =
     (case file of
        None \<Rightarrow> ([], Some OpenFailed)
      | Some contents \<Rightarrow>
          let (ls, too_long) = scan_lines contents
          in (collect {} ls, if too_long then Some ScanFailed else None))"

text \<open>
  \<open>Run\<close>. The process is a function from its arguments and its input file to whether it exits
  with an error and the output file it leaves, if any.
\<close>

record os_env =
  look_path :: bool
  temp_dir :: "string option"
  write_ok :: bool
  start_ok :: bool
  exec_masscan :: "string list \<Rightarrow> string \<Rightarrow> bool \<times> string option"

definition run :: "os_env \<Rightarrow> masscan_config \<Rightarrow> masscan_result list \<times> run_error option" where
  "run os cfg =
     (if \<not> look_path os then ([], Some NotFound)
      else case temp_dir os of
        None \<Rightarrow> ([], Some TempDirFailed)
      | Some dir \<Rightarrow>
          (case scan_targets cfg of
             None \<Rightarrow> ([], Some NoTargets)
           | Some targets \<Rightarrow>
               if \<not> write_ok os then ([], Some WriteFailed)
               else let (failed, output) = exec_masscan os
                          (masscan_args cfg (dir @ ''/ips.txt'') (dir @ ''/output.txt'')) (write_lines targets)
                    in if failed \<and> output = None then ([], Some CommandFailed)
                       else parse_masscan_output output))"

section \<open>Following the file\<close>

text \<open>
  The state of the goroutine of \<open>RunStreaming\<close> between two reads: the IPs seen, the batch
  being filled and the batches sent. The offset is where the last read ended, so the goroutine
  works on the pieces successive reads return: \<open>chunk\<close> is what one read finds behind the
  offset.
\<close>

record stream =
  st_seen :: "string set"
  st_batch :: "masscan_result list"
  st_sent :: "masscan_result list list"

definition new_stream :: stream where
  "new_stream = \<lparr>st_seen = {}, st_batch = [], st_sent = []\<rparr>"

definition stream_add :: "int \<Rightarrow> masscan_result \<Rightarrow> stream \<Rightarrow> stream" where
  "stream_add batchSize r s =
     (if mr_ip r \<in> st_seen s then s
      else let seen = insert (mr_ip r) (st_seen s); batch = st_batch s @ [r]
           in if int (length batch) \<ge> batchSize
              then \<lparr>st_seen = seen, st_batch = [], st_sent = st_sent s @ [batch]\<rparr>
              else \<lparr>st_seen = seen, st_batch = batch, st_sent = st_sent s\<rparr>)"

fun stream_lines :: "int \<Rightarrow> string list \<Rightarrow> stream \<Rightarrow> stream" where
  "stream_lines batchSize [] s = s"
| "stream_lines batchSize (l # ls) s =
     stream_lines batchSize ls
       (case parse_line l of None \<Rightarrow> s | Some r \<Rightarrow> stream_add batchSize r s)"

definition stream_poll :: "int \<Rightarrow> string \<Rightarrow> stream \<Rightarrow> stream" where
  "stream_poll batchSize chunk s = stream_lines batchSize (fst (scan_lines chunk)) s"

text \<open>
  The whole goroutine: the reads of the polling loop, the rest of the batch, and the final read,
  whose results make one more batch of any size. The last message carries \<open>Done\<close>.
\<close>

datatype stream_msg = Batch "masscan_result list" | StreamDone

definition stream_run :: "int \<Rightarrow> string list \<Rightarrow> string \<Rightarrow> stream_msg list" where
  "stream_run batchSize chunks final =
     (let s = fold (stream_poll batchSize) chunks new_stream;
          sent = (if st_batch s = [] then st_sent s else st_sent s @ [st_batch s]);
          remaining = collect (st_seen s) (fst (scan_lines final))
      in map Batch (if remaining = [] then sent else sent @ [remaining]) @ [StreamDone])"

fun msg_results :: "stream_msg \<Rightarrow> masscan_result list" where
  "msg_results (Batch rs) = rs"
| "msg_results StreamDone = []"

definition run_streaming_start :: "os_env \<Rightarrow> masscan_config \<Rightarrow> run_error option" where
  "run_streaming_start os cfg =
     (if \<not> look_path os then Some NotFound
      else if temp_dir os = None then Some TempDirFailed
      else if scan_targets cfg = None then Some NoTargets
      else if \<not> write_ok os then Some WriteFailed
      else if \<not> start_ok os then Some StartFailed else None)"

section \<open>What the parser keeps\<close>

text \<open>The reference: the first result of each IP among the parsed lines.\<close>

fun first_per_ip :: "masscan_result list \<Rightarrow> masscan_result list" where
  "first_per_ip [] = []"
| "first_per_ip (r # rs) = r # filter (\<lambda>q. mr_ip q \<noteq> mr_ip r) (first_per_ip rs)"

lemma collect_reference:
  "collect seen ls = filter (\<lambda>r. mr_ip r \<notin> seen) (first_per_ip (List.map_filter parse_line ls))"
proof (induction ls arbitrary: seen)
  case (Cons l ls)
  show ?case
  proof (cases "parse_line l")
    case (Some r)
    show ?thesis
      using Cons [of seen] Cons [of "insert (mr_ip r) seen"] Some
      by (auto simp: map_filter_def intro!: filter_cong)
  qed (use Cons in \<open>simp add: map_filter_def\<close>)
qed (simp add: map_filter_def)

lemma collect_distinct: "distinct (map mr_ip (collect seen ls)) \<and> mr_ip ` set (collect seen ls) \<inter> seen = {}"
  by (induction seen ls rule: collect.induct) (auto split: option.split)

lemma collect_ips:
  "mr_ip ` set (collect seen ls) = mr_ip ` set (List.map_filter parse_line ls) - seen"
proof -
  have "mr_ip ` set (first_per_ip rs) = mr_ip ` set rs" for rs
  proof (induction rs)
    case (Cons r rs)
    have "mr_ip ` {q \<in> set (first_per_ip rs). mr_ip q \<noteq> mr_ip r} = mr_ip ` set (first_per_ip rs) - {mr_ip r}"
      by auto
    then show ?case using Cons by auto
  qed simp
  then have "mr_ip ` set (first_per_ip (List.map_filter parse_line ls)) =
      mr_ip ` set (List.map_filter parse_line ls)" .
  moreover have "mr_ip ` set (filter (\<lambda>r. mr_ip r \<notin> seen) xs) = mr_ip ` set xs - seen"
    for xs :: "masscan_result list"
    by auto
  ultimately show ?thesis by (simp only: collect_reference)
qed

lemma collect_append:
  "collect seen (ls @ ms) = collect seen ls @ collect (seen \<union> mr_ip ` set (collect seen ls)) ms"
  by (induction seen ls rule: collect.induct) (auto split: option.split)

lemma stream_add_flat:
  "concat (st_sent (stream_add n r s)) @ st_batch (stream_add n r s) @ xs =
     concat (st_sent s) @ st_batch s @ (if mr_ip r \<in> st_seen s then xs else r # xs)"
  "st_seen (stream_add n r s) = insert (mr_ip r) (st_seen s)"
  by (auto simp: stream_add_def Let_def)

lemma stream_lines_collect:
  "concat (st_sent (stream_lines n ls s)) @ st_batch (stream_lines n ls s) =
     concat (st_sent s) @ st_batch s @ collect (st_seen s) ls \<and>
   st_seen (stream_lines n ls s) = st_seen s \<union> mr_ip ` set (collect (st_seen s) ls)"
proof (induction ls arbitrary: s)
  case (Cons l ls)
  show ?case
  proof (cases "parse_line l")
    case (Some r)
    then show ?thesis
      using Cons [of "stream_add n r s"] by (auto simp: stream_add_flat insert_absorb)
  qed (use Cons in simp)
qed simp

lemma stream_lines_append: "stream_lines n (ls @ ms) s = stream_lines n ms (stream_lines n ls s)"
  by (induction n ls s rule: stream_lines.induct) (auto simp: Let_def split: option.split)

lemma stream_polls:
  assumes "\<forall>c \<in> set chunks. ends_line c" "\<not> snd (scan_lines (concat chunks))"
  shows "fold (stream_poll n) chunks s = stream_lines n (fst (scan_lines (concat chunks))) s"
  using assms
proof (induction chunks arbitrary: s)
  case Nil
  show ?case by (simp add: scan_lines_def raw_lines_def)
next
  case (Cons c cs)
  then have c: "ends_line c" "\<not> snd (scan_lines c)" "\<not> snd (scan_lines (concat cs))"
    using scan_lines_long_append [of c "concat cs"] by auto
  then show ?case
    using Cons scan_lines_append [of c "concat cs"] by (simp add: stream_poll_def stream_lines_append)
qed

definition batches_ok :: "int \<Rightarrow> stream \<Rightarrow> bool" where
  "batches_ok n s \<longleftrightarrow> int (length (st_batch s)) < n \<and> (\<forall>b \<in> set (st_sent s). int (length b) = n)"

lemma batches_ok_add: "1 \<le> n \<Longrightarrow> batches_ok n s \<Longrightarrow> batches_ok n (stream_add n r s)"
  by (auto simp: batches_ok_def stream_add_def Let_def)

lemma batches_ok_lines: "1 \<le> n \<Longrightarrow> batches_ok n s \<Longrightarrow> batches_ok n (stream_lines n ls s)"
  by (induction ls arbitrary: s) (auto simp: batches_ok_add split: option.split)

section \<open>Properties\<close>

text \<open>A line as masscan writes it.\<close>

definition open_line :: "int \<Rightarrow> string \<Rightarrow> string \<Rightarrow> string" where
  "open_line port ip stamp = ''open tcp '' @ fmt_d port @ '' '' @ ip @ '' '' @ stamp"

lemma no_space_fmt_d: "no_space (fmt_d n)"
  using itoa_nonneg_digits digit_no_space
  by (auto simp: no_space_def fmt_d_def is_space_def split: if_splits)

lemma fmt_d_nonempty: "fmt_d n \<noteq> []"
  using itoa_nonempty [of n] by (auto simp: fmt_d_def)

lemma go_fields_open:
  assumes "no_space ip" "ip \<noteq> []"
  shows "go_fields (''open tcp '' @ fmt_d port @ '' '' @ ip @ CHR '' '' # rest) =
    [''open'', ''tcp'', fmt_d port, ip] @ go_fields rest"
proof -
  have "go_fields (''open'' @ CHR '' '' # ''tcp'' @ CHR '' '' # fmt_d port @ CHR '' '' # ip @ CHR '' '' # rest) =
      [''open'', ''tcp'', fmt_d port, ip] @ go_fields rest"
    using assms no_space_fmt_d fmt_d_nonempty
    by (subst go_fields_word, simp add: no_space_def is_space_def, simp)+ simp
  then show ?thesis by simp
qed

lemma go_fields_torn:
  assumes "no_space ip" "ip \<noteq> []"
  shows "go_fields (''open tcp '' @ fmt_d port @ '' '' @ ip) = [''open'', ''tcp'', fmt_d port, ip]"
proof -
  have "go_fields (''open'' @ CHR '' '' # ''tcp'' @ CHR '' '' # fmt_d port @ CHR '' '' # ip) =
      [''open'', ''tcp'', fmt_d port, ip]"
    using assms no_space_fmt_d fmt_d_nonempty go_fields_last [of ip]
    by (subst go_fields_word, simp add: no_space_def is_space_def, simp)+ simp
  then show ?thesis by simp
qed

lemma parse_open_fields:
  assumes "no_space ip" "ip \<noteq> []" "in_int64 port" "fs = [''open'', ''tcp'', fmt_d port, ip] @ rest"
    and "go_fields l = fs" "\<exists>t. l = CHR ''o'' # t"
  shows "parse_line l = Some \<lparr>mr_ip = ip, mr_port = port\<rparr>"
proof -
  obtain t where "l = CHR ''o'' # t" using assms(6) by blast
  then obtain t' where "trim_space l = CHR ''o'' # t'"
    using trim_space_hd [of l] by (auto simp: is_space_def)
  moreover have "go_fields (trim_space l) = [''open'', ''tcp'', fmt_d port, ip] @ rest"
    using assms(4,5) by simp
  ultimately show ?thesis
    using atoi_fmt_d [OF assms(3)] by (simp add: parse_line_def has_prefix_def)
qed

lemma parse_open_line:
  assumes "no_space ip" "ip \<noteq> []" "in_int64 port"
  shows "parse_line (open_line port ip stamp) = Some \<lparr>mr_ip = ip, mr_port = port\<rparr>"
  by (rule parse_open_fields [OF assms refl])
    (use go_fields_open [OF assms(1,2), of port stamp] in \<open>simp_all add: open_line_def\<close>)

definition plain_result :: "masscan_result \<Rightarrow> bool" where
  "plain_result r \<longleftrightarrow> no_space (mr_ip r) \<and> mr_ip r \<noteq> [] \<and> in_int64 (mr_port r)"

lemma collect_open_lines:
  assumes "list_all plain_result rs" "distinct (map mr_ip rs)" "mr_ip ` set rs \<inter> seen = {}"
  shows "collect seen (map (\<lambda>r. open_line (mr_port r) (mr_ip r) stamp) rs) = rs"
  using assms
  by (induction rs arbitrary: seen) (auto simp: parse_open_line plain_result_def)

text \<open>
  C34. What masscan writes is what the parser returns: a file with one line per open port, for
  distinct IPs, is parsed back to exactly those IPs and ports in their order, without error.
\<close>

theorem masscan_output_roundtrip:
  assumes "list_all plain_result rs" "distinct (map mr_ip rs)"
    and "list_all fits_line (map (\<lambda>r. open_line (mr_port r) (mr_ip r) stamp) rs)"
  shows "parse_masscan_output (Some (write_lines (map (\<lambda>r. open_line (mr_port r) (mr_ip r) stamp) rs))) = (rs, None)"
  using collect_open_lines [OF assms(1,2), of "{}" stamp] scan_written_lines [OF assms(3)]
  by (simp add: parse_masscan_output_def write_lines_def)

theorem masscan_output_roundtrip_witness:
  "let rs = [\<lparr>mr_ip = ''1.2.3.4'', mr_port = 443\<rparr>, \<lparr>mr_ip = ''5.6.7.8'', mr_port = 8443\<rparr>]
   in parse_masscan_output (Some (write_lines (map (\<lambda>r. open_line (mr_port r) (mr_ip r) ''17'') rs))) = (rs, None)"
proof -
  let ?rs = "[\<lparr>mr_ip = ''1.2.3.4'', mr_port = 443\<rparr>, \<lparr>mr_ip = ''5.6.7.8'', mr_port = 8443\<rparr>]"
  have "list_all plain_result ?rs" by (simp add: plain_result_def no_space_def is_space_def in_int64_def)
  moreover have "list_all fits_line (map (\<lambda>r. open_line (mr_port r) (mr_ip r) ''17'') ?rs)"
    by (simp add: fits_line_def open_line_def fmt_d_def itoa_def itoa_loop_step)
  ultimately show ?thesis
    using masscan_output_roundtrip [of ?rs "''17''"] by (simp add: Let_def)
qed

text \<open>
  C14. When every read of the polling loop stops at the end of a line, streaming loses and adds
  nothing: the batches together are exactly what parsing the finished file gives, every batch
  but the last two has the requested size, and the end is announced once, at the end.
\<close>

theorem stream_equals_file:
  assumes "\<forall>c \<in> set chunks. ends_line c" and "\<not> snd (scan_lines (concat chunks @ final))"
    and "1 \<le> n"
  shows "concat (map msg_results (stream_run n chunks final)) =
      fst (parse_masscan_output (Some (concat chunks @ final))) \<and>
    (\<exists>full rest. stream_run n chunks final = map Batch (full @ rest) @ [StreamDone] \<and>
       (\<forall>b \<in> set full. int (length b) = n) \<and> length rest \<le> 2)"
proof -
  let ?all = "concat chunks" and ?s = "fold (stream_poll n) chunks new_stream"
  have ends: "ends_line ?all" using assms(1) by (rule ends_line_concat)
  then have short: "\<not> snd (scan_lines ?all)" "\<not> snd (scan_lines final)"
    using assms(2) scan_lines_long_append [of ?all final] by auto
  have s: "?s = stream_lines n (fst (scan_lines ?all)) new_stream"
    using assms(1) short(1) by (rule stream_polls)
  have lines: "concat (st_sent ?s) @ st_batch ?s = collect {} (fst (scan_lines ?all))"
    "st_seen ?s = mr_ip ` set (collect {} (fst (scan_lines ?all)))"
    using stream_lines_collect [of n "fst (scan_lines ?all)" new_stream] unfolding s
    by (simp_all add: new_stream_def)
  let ?rem = "collect (st_seen ?s) (fst (scan_lines final))"
  have "concat (map msg_results (stream_run n chunks final)) = concat (st_sent ?s) @ st_batch ?s @ ?rem"
    by (simp add: stream_run_def Let_def comp_def)
  also have "\<dots> = collect {} (fst (scan_lines (?all @ final)))"
    using lines scan_lines_append(1) [OF ends short(1), of final]
    by (simp add: collect_append append_assoc [symmetric] del: append_assoc)
  also have "\<dots> = fst (parse_masscan_output (Some (?all @ final)))"
    by (simp add: parse_masscan_output_def split_beta)
  finally have 1: "concat (map msg_results (stream_run n chunks final)) =
      fst (parse_masscan_output (Some (?all @ final)))" .
  have full: "\<forall>b \<in> set (st_sent ?s). int (length b) = n"
    using batches_ok_lines [of n new_stream "fst (scan_lines ?all)"] assms(3) unfolding s
    by (simp add: batches_ok_def new_stream_def)
  let ?rest = "(if st_batch ?s = [] then [] else [st_batch ?s]) @ (if ?rem = [] then [] else [?rem])"
  have run: "stream_run n chunks final = map Batch (st_sent ?s @ ?rest) @ [StreamDone]"
    by (simp add: stream_run_def Let_def)
  have "length ?rest \<le> 2" by simp
  then show ?thesis using 1 full run by blast
qed

theorem stream_equals_file_witness:
  "concat (map msg_results (stream_run 5
     [open_line 443 ''1.2.3.4'' ''17'' @ [CHR 0x0A], []] (open_line 443 ''5.6.7.8'' ''18''))) =
   [\<lparr>mr_ip = ''1.2.3.4'', mr_port = 443\<rparr>, \<lparr>mr_ip = ''5.6.7.8'', mr_port = 443\<rparr>]"
proof -
  let ?l1 = "open_line 443 ''1.2.3.4'' ''17''" and ?l2 = "open_line 443 ''5.6.7.8'' ''18''"
  have fits: "fits_line ?l1" "fits_line ?l2" "?l2 \<noteq> []"
    by (simp_all add: fits_line_def open_line_def fmt_d_def itoa_def itoa_loop_step)
  have ends: "\<forall>c \<in> set [?l1 @ [CHR 0x0A], []]. ends_line c" by (simp add: ends_line_def)
  have scan: "scan_lines (concat [?l1 @ [CHR 0x0A], []] @ ?l2) = ([?l1, ?l2], False)"
    using scan_lines_append [of "?l1 @ [CHR 0x0A]" ?l2] scan_lines_snoc [OF fits(1)]
      scan_lines_last [OF fits(2,3)]
    by (simp add: prod_eq_iff ends_line_def)
  have "parse_line ?l1 = Some \<lparr>mr_ip = ''1.2.3.4'', mr_port = 443\<rparr>"
    "parse_line ?l2 = Some \<lparr>mr_ip = ''5.6.7.8'', mr_port = 443\<rparr>"
    by (simp_all add: parse_open_line no_space_def is_space_def in_int64_def)
  then show ?thesis
    using conjunct1 [OF stream_equals_file [OF ends, of ?l2 5]] scan
    by (simp add: parse_masscan_output_def)
qed

lemma torn_stream:
  assumes "scan_lines c = ([c], False)" "scan_lines d' = ([d], False)"
    and "parse_line c = Some r" "parse_line d = None"
  shows "concat (map msg_results (stream_run n [c] d')) = [r]"
  using assms by (simp add: stream_run_def stream_poll_def new_stream_def stream_add_def Let_def)

lemma fits_lineI: "CHR 0x0A \<notin> set l \<Longrightarrow> CHR 0x0D \<notin> set l \<Longrightarrow> length l < 65536 \<Longrightarrow> fits_line l"
  by (auto simp: fits_line_def) (metis last_in_set)

lemma parse_one_line:
  "scan_lines s = ([l], False) \<Longrightarrow> parse_line l = Some r \<Longrightarrow> parse_masscan_output (Some s) = ([r], None)"
  by (simp add: parse_masscan_output_def)

text \<open>
  C26. A read that stops inside the IP of a line, which happens whenever the file is read while
  masscan is writing to it, reports the first part of the address as a result and never the
  address itself, although parsing the finished file gives the right one.
\<close>

theorem torn_line_reports_wrong_ip:
  assumes "no_space a" "a \<noteq> []" "no_space b" "b \<noteq> []" "no_space stamp" "stamp \<noteq> []" "in_int64 port"
    and "length (open_line port (a @ b) stamp) < 65536"
  shows "concat (map msg_results (stream_run n [''open tcp '' @ fmt_d port @ '' '' @ a]
       (b @ '' '' @ stamp @ [CHR 0x0A]))) = [\<lparr>mr_ip = a, mr_port = port\<rparr>] \<and>
    parse_masscan_output (Some ((''open tcp '' @ fmt_d port @ '' '' @ a) @ (b @ '' '' @ stamp @ [CHR 0x0A]))) =
      ([\<lparr>mr_ip = a @ b, mr_port = port\<rparr>], None)"
proof -
  let ?l = "open_line port (a @ b) stamp"
  let ?c = "''open tcp '' @ fmt_d port @ '' '' @ a" and ?d = "b @ '' '' @ stamp"
  have l: "?l @ [CHR 0x0A] = ?c @ ?d @ [CHR 0x0A]" by (simp add: open_line_def)
  have long: "length ?c < 65536" "length ?d < 65536" using assms(8) by (simp_all add: open_line_def)
  note no = no_space_chars [OF assms(1)] no_space_chars [OF assms(3)] no_space_chars [OF assms(5)]
    no_space_chars [OF no_space_fmt_d [of port]]
  have fits: "fits_line ?l" "fits_line ?c" "fits_line ?d"
    by (rule fits_lineI, use no assms(8) long in \<open>simp_all add: open_line_def\<close>)+
  have "go_fields ?c = [''open'', ''tcp'', fmt_d port, a] @ []"
    using go_fields_torn [OF assms(1,2)] by simp
  then have pc: "parse_line ?c = Some \<lparr>mr_ip = a, mr_port = port\<rparr>"
    by (intro parse_open_fields [OF assms(1,2,7) refl]) simp_all
  have "go_fields ?d = [b, stamp]"
    using assms(3-6) go_fields_word [of b stamp] go_fields_last [of stamp] by simp
  then have pd: "parse_line ?d = None"
    by (simp add: parse_line_def Let_def)
  have pl: "parse_line ?l = Some \<lparr>mr_ip = a @ b, mr_port = port\<rparr>"
    using assms(1-4,7) by (intro parse_open_line) (auto simp: no_space_def)
  have "?c \<noteq> []" by simp
  show ?thesis
  proof
    show "concat (map msg_results (stream_run n [?c] (b @ '' '' @ stamp @ [CHR 0x0A]))) = [\<lparr>mr_ip = a, mr_port = port\<rparr>]"
      using torn_stream [OF scan_lines_last [OF fits(2) \<open>?c \<noteq> []\<close>] scan_lines_snoc [OF fits(3)] pc pd] by simp
    have "scan_lines (?c @ b @ '' '' @ stamp @ [CHR 0x0A]) = ([?l], False)"
      using scan_lines_snoc [OF fits(1)] unfolding l by simp
    from parse_one_line [OF this pl]
    show "parse_masscan_output (Some (?c @ (b @ '' '' @ stamp @ [CHR 0x0A]))) = ([\<lparr>mr_ip = a @ b, mr_port = port\<rparr>], None)" .
  qed
qed

theorem torn_line_reports_wrong_ip_witness:
  "concat (map msg_results (stream_run 100 [''open tcp '' @ fmt_d 443 @ '' '' @ ''1.2.3.'']
     (''45'' @ '' '' @ ''17'' @ [CHR 0x0A]))) = [\<lparr>mr_ip = ''1.2.3.'', mr_port = 443\<rparr>]"
  by (rule conjunct1 [OF torn_line_reports_wrong_ip])
    (simp_all add: no_space_def is_space_def in_int64_def open_line_def fmt_d_def itoa_def itoa_loop_step)

end
