(* ===== verification/Verifier.thy ===== *)
theory Verifier
  imports Text
begin

text \<open>
  The verification of candidates by a web service (\<open>internal/verifier/verifier.go\<close>): one
  check, the parsing of a target, and \<open>VerifyBatch\<close> with its goroutines and channels as a step
  relation. The HTTP exchange and the JSON decoding are parameters.
\<close>

section \<open>One check\<close>

record check_result =
  cr_success :: bool
  cr_ip :: string
  cr_colo :: string
  cr_region :: string
  cr_asn :: string
  cr_country :: string

datatype verify_error = RequestFailed | DecodeFailed

definition defaultAPI :: string where
  "defaultAPI = ''https://api.090227.xyz/check''"

definition verify_timeout :: duration where
  "verify_timeout = seconds 10"

definition verify_url :: "string \<Rightarrow> int \<Rightarrow> string" where
  "verify_url ip port = defaultAPI @ ''?proxyip='' @ ip @ '':'' @ fmt_d port"

definition verify ::
  "(string \<Rightarrow> string option) \<Rightarrow> (string \<Rightarrow> check_result option) \<Rightarrow> string \<Rightarrow> int \<Rightarrow>
   verify_error + check_result option" where
  "verify get decode ip port =
     (case get (verify_url ip port) of
        None \<Rightarrow> Inl RequestFailed
      | Some body \<Rightarrow>
          (case decode body of
             None \<Rightarrow> Inl DecodeFailed
           | Some data \<Rightarrow> Inr (if \<not> cr_success data then None else Some data)))"

text \<open>The result a worker goroutine passes on: errors are dropped.\<close>

definition verified :: "(string \<Rightarrow> string option) \<Rightarrow> (string \<Rightarrow> check_result option) \<Rightarrow> string \<Rightarrow> int \<Rightarrow> check_result option" where
  "verified get decode ip port = (case verify get decode ip port of Inl _ \<Rightarrow> None | Inr r \<Rightarrow> r)"

section \<open>Targets\<close>

text \<open>The loop from the end of the string to the last colon.\<close>

fun find_colon :: "string \<Rightarrow> nat \<Rightarrow> nat option" where
  "find_colon s 0 = None"
| "find_colon s (Suc i) = (if s ! i = CHR '':'' then Some i else find_colon s i)"

definition parse_target :: "string \<Rightarrow> (string \<times> int) option" where
  "parse_target s =
     (case find_colon s (length s) of
        None \<Rightarrow> None
      | Some i \<Rightarrow> map_option (\<lambda>port. (take i s, port)) (sscanf_d (drop (i + 1) s)))"

lemma find_colon_last:
  "CHR '':'' \<notin> set t \<Longrightarrow> find_colon (s @ CHR '':'' # t) (length (s @ CHR '':'' # t)) = Some (length s)"
proof (induction t rule: rev_induct)
  case Nil
  then show ?case by simp
next
  case (snoc c t)
  have cut: "find_colon (x @ y) (length x) = find_colon x (length x)" for x y
  proof -
    have "find_colon (x @ y) n = find_colon x n" if "n \<le> length x" for n
      using that by (induction n) (auto simp: nth_append)
    then show ?thesis by simp
  qed
  let ?x = "s @ CHR '':'' # t"
  have "c \<noteq> CHR '':''" using snoc.prems by auto
  then have "find_colon (?x @ [c]) (length (?x @ [c])) = find_colon (?x @ [c]) (length ?x)"
    by (simp add: nth_append)
  also have "\<dots> = find_colon ?x (length ?x)" by (rule cut)
  also have "\<dots> = Some (length s)" using snoc by simp
  finally show ?case by simp
qed

lemma fmt_d_no_colon: "CHR '':'' \<notin> set (fmt_d n)"
  using itoa_nonneg_digits [of "CHR '':''"] by (auto simp: fmt_d_def is_digit_def)

lemma parse_target_fmt:
  "in_int64 port \<Longrightarrow> parse_target (ip @ '':'' @ fmt_d port) = Some (ip, port)"
  using find_colon_last [OF fmt_d_no_colon [of port], of ip]
  by (simp add: parse_target_def sscanf_fmt_d)

section \<open>A batch\<close>

record job =
  jb_target :: string
  jb_ip :: string
  jb_port :: int

record batch_result =
  br_ip :: string
  br_port :: int
  br_valid :: bool
  br_colo :: string
  br_region :: string
  br_asn :: string
  br_country :: string

definition make_job :: "string \<Rightarrow> job option" where
  "make_job t = map_option (\<lambda>(ip, port). \<lparr>jb_target = t, jb_ip = ip, jb_port = port\<rparr>) (parse_target t)"

definition to_batch :: "job \<times> check_result option \<Rightarrow> batch_result option" where
  "to_batch = (\<lambda>(j, r). map_option (\<lambda>c. \<lparr>br_ip = jb_ip j, br_port = jb_port j, br_valid = True,
     br_colo = cr_colo c, br_region = cr_region c, br_asn = cr_asn c, br_country = cr_country c\<rparr>) r)"

definition worker_count :: "int \<Rightarrow> nat" where
  "worker_count concurrency = nat (if concurrency < 1 then 16 else concurrency)"

text \<open>
  The goroutines: the producer with the targets it has not parsed, the \<open>jobs\<close> channel, the
  workers that hold a job, the \<open>results\<close> channel, and the collector with the number of results
  it still waits for. Both channels have room for one message per target, so a send never
  blocks. The call returns when the collector waits for nothing more.
\<close>

record batch_state =
  vb_todo :: "string list"
  vb_jobs :: "job list"
  vb_closed :: bool
  vb_busy :: "job multiset"
  vb_results :: "(job \<times> check_result option) list"
  vb_left :: nat
  vb_batch :: "batch_result list"

definition vb_init :: "string list \<Rightarrow> batch_state" where
  "vb_init targets = \<lparr>vb_todo = targets, vb_jobs = [], vb_closed = False, vb_busy = {#},
     vb_results = [], vb_left = length targets, vb_batch = []\<rparr>"

inductive vb_step :: "(string \<Rightarrow> int \<Rightarrow> check_result option) \<Rightarrow> int \<Rightarrow> batch_state \<Rightarrow> batch_state \<Rightarrow> bool"
  for check :: "string \<Rightarrow> int \<Rightarrow> check_result option" and concurrency :: int where
  vb_parse: "vb_todo s = t # ts \<Longrightarrow> make_job t = Some j \<Longrightarrow>
    vb_step check concurrency s (s\<lparr>vb_todo := ts, vb_jobs := vb_jobs s @ [j]\<rparr>)"
| vb_skip: "vb_todo s = t # ts \<Longrightarrow> make_job t = None \<Longrightarrow>
    vb_step check concurrency s (s\<lparr>vb_todo := ts\<rparr>)"
| vb_close: "vb_todo s = [] \<Longrightarrow> \<not> vb_closed s \<Longrightarrow>
    vb_step check concurrency s (s\<lparr>vb_closed := True\<rparr>)"
| vb_take: "vb_jobs s = j # js \<Longrightarrow> size (vb_busy s) < worker_count concurrency \<Longrightarrow>
    vb_step check concurrency s (s\<lparr>vb_jobs := js, vb_busy := add_mset j (vb_busy s)\<rparr>)"
| vb_verify: "j \<in># vb_busy s \<Longrightarrow>
    vb_step check concurrency s (s\<lparr>vb_busy := vb_busy s - {#j#},
      vb_results := vb_results s @ [(j, check (jb_ip j) (jb_port j))]\<rparr>)"
| vb_collect: "vb_results s = r # rs \<Longrightarrow> vb_left s = Suc n \<Longrightarrow>
    vb_step check concurrency s (s\<lparr>vb_results := rs, vb_left := n,
      vb_batch := vb_batch s @ (case to_batch r of None \<Rightarrow> [] | Some b \<Rightarrow> [b])\<rparr>)"

definition vb_work :: "batch_state \<Rightarrow> nat" where
  "vb_work s = 4 * length (vb_todo s) + 3 * length (vb_jobs s) + 2 * size (vb_busy s) +
     length (vb_results s) + (if vb_closed s then 0 else 1)"

lemma vb_step_work: "vb_step check c s s' \<Longrightarrow> vb_work s' < vb_work s"
  by (induction rule: vb_step.induct) (auto simp: vb_work_def size_Diff_singleton dest!: multi_member_split)

text \<open>
  Where the jobs are: every target that parses is in exactly one place, and what has been
  collected accounts for the batch and for the messages received.
\<close>

definition answered :: "(string \<Rightarrow> int \<Rightarrow> check_result option) \<Rightarrow> job \<Rightarrow> job \<times> check_result option" where
  "answered check j = (j, check (jb_ip j) (jb_port j))"

definition vb_inv :: "(string \<Rightarrow> int \<Rightarrow> check_result option) \<Rightarrow> string list \<Rightarrow> batch_state \<Rightarrow> bool" where
  "vb_inv check targets s \<longleftrightarrow>
     (\<exists>collected queued.
        mset (List.map_filter make_job targets) =
          mset (List.map_filter make_job (vb_todo s)) + mset (vb_jobs s) + vb_busy s + mset queued + mset collected \<and>
        vb_results s = map (answered check) queued \<and>
        vb_batch s = List.map_filter to_batch (map (answered check) collected) \<and>
        vb_left s + length collected = length targets)"

lemma vb_inv_init: "vb_inv check targets (vb_init targets)"
  by (auto simp: vb_inv_def vb_init_def map_filter_def)

lemma vb_inv_step:
  assumes "vb_inv check targets s" "vb_step check c s s'"
  shows "vb_inv check targets s'"
proof -
  obtain collected queued where
    jobs: "mset (List.map_filter make_job targets) =
      mset (List.map_filter make_job (vb_todo s)) + mset (vb_jobs s) + vb_busy s + mset queued + mset collected"
    and rest: "vb_results s = map (answered check) queued"
      "vb_batch s = List.map_filter to_batch (map (answered check) collected)"
      "vb_left s + length collected = length targets"
    using assms(1) by (auto simp: vb_inv_def)
  note inv = exI [of _ collected] exI [of _ queued]
  from assms(2) show ?thesis
  proof cases
    case (vb_parse t ts j)
    then show ?thesis
      using jobs rest unfolding vb_inv_def
      by (intro exI [of _ collected] exI [of _ queued]) (auto simp: map_filter_def)
  next
    case (vb_skip t ts)
    then show ?thesis
      using jobs rest unfolding vb_inv_def
      by (intro exI [of _ collected] exI [of _ queued]) (auto simp: map_filter_def)
  next
    case vb_close
    then show ?thesis
      using jobs rest unfolding vb_inv_def
      by (intro exI [of _ collected] exI [of _ queued]) auto
  next
    case (vb_take j js)
    then show ?thesis
      using jobs rest unfolding vb_inv_def
      by (intro exI [of _ collected] exI [of _ queued]) auto
  next
    case (vb_verify j)
    then obtain b where "vb_busy s = add_mset j b" by (metis mset_add)
    then show ?thesis
      using jobs rest vb_verify unfolding vb_inv_def
      by (intro exI [of _ collected] exI [of _ "queued @ [j]"]) (auto simp: answered_def)
  next
    case (vb_collect r rs n)
    then obtain j q where q: "queued = j # q" "r = answered check j" "rs = map (answered check) q"
      using rest(1) by auto
    then show ?thesis
      using jobs rest vb_collect unfolding vb_inv_def
      by (intro exI [of _ "collected @ [j]"] exI [of _ q]) (auto simp: map_filter_def split: option.split)
  qed
qed

interpretation vbm: machine_invariant "\<lambda>s. s = vb_init targets" "vb_step check c" "vb_inv check targets"
  for targets check c
  by unfold_locales (auto simp: vb_inv_init intro: vb_inv_step)

lemma vb_stuck:
  assumes "\<nexists>s'. vb_step check c s s'"
  shows "vb_todo s = []" "vb_jobs s = []" "vb_busy s = {#}" "vb_results s = [] \<or> vb_left s = 0"
proof -
  show "vb_todo s = []"
    using assms vb_parse vb_skip by (cases "vb_todo s"; cases "make_job (hd (vb_todo s))") (auto, blast+)
  show busy: "vb_busy s = {#}"
    using assms vb_verify by (metis multiset_nonemptyE)
  have "0 < worker_count c" by (simp add: worker_count_def)
  then show "vb_jobs s = []"
    using assms vb_take [of s] busy by (cases "vb_jobs s") auto
  show "vb_results s = [] \<or> vb_left s = 0"
    using assms vb_collect [of s "hd (vb_results s)" "tl (vb_results s)" "vb_left s - 1" check c]
    by (cases "vb_results s"; cases "vb_left s") auto
qed

lemma mset_map_filter_cong: "mset xs = mset ys \<Longrightarrow> mset (List.map_filter f xs) = mset (List.map_filter f ys)"
  by (simp add: map_filter_def)

lemma length_map_filter_le: "length (List.map_filter f xs) \<le> length xs"
  by (simp add: map_filter_def)

lemma length_map_filter: "length (List.map_filter f xs) = length (filter (\<lambda>x. f x \<noteq> None) xs)"
  by (simp add: map_filter_def)

text \<open>The final states of a batch.\<close>

lemma vb_final:
  assumes "reach (\<lambda>s. s = vb_init targets) (vb_step check c) s" and "\<nexists>s'. vb_step check c s s'"
  shows "vb_left s = length (filter (\<lambda>t. parse_target t = None) targets)"
    and "mset (vb_batch s) =
      mset (List.map_filter (\<lambda>j. to_batch (j, check (jb_ip j) (jb_port j))) (List.map_filter make_job targets))"
proof -
  let ?jobs = "List.map_filter make_job targets"
  obtain collected queued where
    jobs: "mset ?jobs = mset queued + mset collected"
    and rest: "vb_results s = map (answered check) queued"
      "vb_batch s = List.map_filter to_batch (map (answered check) collected)"
      "vb_left s + length collected = length targets"
    using vbm.inv_reach [OF assms(1)] vb_stuck [OF assms(2)] by (auto simp: vb_inv_def map_filter_def)
  have len: "length ?jobs = length queued + length collected"
    using arg_cong [OF jobs, of size] by simp
  have "length queued = 0"
    using vb_stuck(4) [OF assms(2)] rest len length_map_filter_le [of make_job targets] by auto
  then have q: "queued = []" by simp
  have "length (filter (\<lambda>t. parse_target t = None) targets) + length ?jobs = length targets"
    using sum_length_filter_compl [of "\<lambda>t. parse_target t = None" targets]
    by (simp add: length_map_filter make_job_def)
  then show "vb_left s = length (filter (\<lambda>t. parse_target t = None) targets)"
    using len rest(3) q by simp
  have "List.map_filter to_batch (map (answered check) xs) =
      List.map_filter (\<lambda>j. to_batch (j, check (jb_ip j) (jb_port j))) xs" for xs
    by (induction xs) (simp_all add: map_filter_def answered_def)
  then show "mset (vb_batch s) = mset (List.map_filter (\<lambda>j. to_batch (j, check (jb_ip j) (jb_port j))) ?jobs)"
    using rest(2) mset_map_filter_cong [of collected ?jobs] jobs q by simp
qed

lemma vb_terminates: "wf {(t, s). vb_step check c s t}"
  by (rule wf_subset [OF wf_measure [of vb_work]]) (auto simp: vb_step_work)

section \<open>Properties\<close>

text \<open>
  Printing a target as the worker does (address, colon, decimal port) and parsing it gives
  the address and the port back, whatever colons the address contains.
\<close>

theorem parse_target_roundtrip:
  assumes "in_int64 port"
  shows "parse_target (ip @ '':'' @ fmt_d port) = Some (ip, port)"
  using parse_target_fmt [OF assms] .

theorem parse_target_roundtrip_witness:
  "parse_target (''2606:4700::1'' @ '':'' @ fmt_d 443) = Some (''2606:4700::1'', 443)"
  by (rule parse_target_roundtrip) (simp add: in_int64_def)

text \<open>
  C7. A batch cannot run forever, and every run ends in the same way: all targets have been
  parsed and verified, and the collector still waits for as many results as there were targets
  that do not parse. So the call returns exactly when every target parses, and hangs otherwise;
  what has been collected when it ends is, up to order, one entry per target that the service
  confirms.
\<close>

theorem verify_batch_outcome:
  assumes "reach (\<lambda>s. s = vb_init targets) (vb_step check c) s" and "\<nexists>s'. vb_step check c s s'"
  shows "wf {(s2, s1). vb_step check c s1 s2} \<and>
    vb_left s = length (filter (\<lambda>t. parse_target t = None) targets) \<and>
    (vb_left s = 0 \<longleftrightarrow> (\<forall>t \<in> set targets. parse_target t \<noteq> None)) \<and>
    mset (vb_batch s) =
      mset (List.map_filter (\<lambda>j. to_batch (j, check (jb_ip j) (jb_port j))) (List.map_filter make_job targets))"
  using vb_final [OF assms] vb_terminates [of check c] by (simp add: filter_empty_conv)

theorem verify_batch_outcome_witness:
  "\<exists>s. reach (\<lambda>s. s = vb_init [''x'']) (vb_step (\<lambda>_ _. None) 1) s \<and>
     (\<nexists>s'. vb_step (\<lambda>_ _. None) 1 s s') \<and> vb_left s = 1"
proof -
  let ?step = "vb_step (\<lambda>_ _. None) 1"
  let ?s1 = "(vb_init [''x''])\<lparr>vb_todo := []\<rparr>" and ?s2 = "(vb_init [''x''])\<lparr>vb_todo := [], vb_closed := True\<rparr>"
  have none: "make_job ''x'' = None" by (simp add: make_job_def parse_target_def)
  have "reach (\<lambda>s. s = vb_init [''x'']) ?step (vb_init [''x''])" by (rule reach_init) simp
  moreover have "?step (vb_init [''x'']) ?s1"
    using vb_skip [of "vb_init [''x'']" "''x''" "[]" "\<lambda>_ _. None" 1] none by (simp add: vb_init_def)
  moreover have "?step ?s1 ?s2"
    using vb_close [of ?s1 "\<lambda>_ _. None" 1] by (simp add: vb_init_def)
  ultimately have r: "reach (\<lambda>s. s = vb_init [''x'']) ?step ?s2" by (blast intro: reach_step)
  have stuck: "\<nexists>s'. ?step ?s2 s'" by (auto simp: vb_init_def elim: vb_step.cases)
  have "vb_left ?s2 = length (filter (\<lambda>t. parse_target t = None) [''x''])"
    using verify_batch_outcome [OF r stuck] by blast
  then show ?thesis using r stuck by (intro exI [of _ ?s2]) (simp add: parse_target_def)
qed

end
