(* ===== verification/Resolver.thy ===== *)
theory Resolver
  imports Net
begin

text \<open>
  From AS numbers to addresses (\<open>internal/resolver/resolver.go\<close> and \<open>expand.go\<close>): the lookup of
  the announced prefixes, the concurrent lookup of several AS numbers, and the random sample of
  addresses from a list of prefixes. The HTTP exchange, the JSON decoding and the random
  numbers are parameters.
\<close>

section \<open>Resolving AS numbers\<close>

datatype resolve_error = RequestFailed | BadStatus int | DecodeFailed | NoIPv4Prefixes string | AllFailed nat

definition normalize_asn :: "string \<Rightarrow> string" where
  "normalize_asn asn =
     (if length asn > 2 \<and> (take 2 asn = ''AS'' \<or> take 2 asn = ''as'') then drop 2 asn else asn)"

definition ripe_url :: "string \<Rightarrow> string" where
  "ripe_url asn = ''https://stat.ripe.net/data/announced-prefixes/data.json?resource=AS'' @ asn"

fun contains_dot :: "string \<Rightarrow> bool" where
  "contains_dot [] = False"
| "contains_dot (c # cs) = (if c = CHR ''.'' then True else contains_dot cs)"

text \<open>\<open>get\<close> gives the status and the body of a response, \<open>decode\<close> the prefixes in a body.\<close>

definition resolve_asn ::
  "(string \<Rightarrow> (int \<times> string) option) \<Rightarrow> (string \<Rightarrow> string list option) \<Rightarrow> string \<Rightarrow>
   resolve_error + string list" where
  "resolve_asn get decode asn0 =
     (let asn = normalize_asn asn0
      in case get (ripe_url asn) of
           None \<Rightarrow> Inl RequestFailed
         | Some (status, body) \<Rightarrow>
             if status \<noteq> 200 then Inl (BadStatus status)
             else case decode body of
                    None \<Rightarrow> Inl DecodeFailed
                  | Some data \<Rightarrow>
                      let prefixes = filter contains_dot data
                      in if prefixes = [] then Inl (NoIPv4Prefixes asn) else Inr prefixes)"

text \<open>
  \<open>ResolveMultipleASNs\<close> starts one goroutine per AS number and receives as many results, in the
  order in which they arrive.
\<close>

type_synonym arrival = "string \<times> (resolve_error + string list)"

fun gather :: "arrival list \<Rightarrow> (string \<rightharpoonup> string list) \<Rightarrow> string list \<Rightarrow> (string \<rightharpoonup> string list) \<times> string list" where
  "gather [] results failed = (results, failed)"
| "gather ((asn, r) # rs) results failed =
     (case r of
        Inl e \<Rightarrow> gather rs results (failed @ [asn])
      | Inr prefixes \<Rightarrow> gather rs (results(asn \<mapsto> prefixes)) failed)"

definition resolve_multiple :: "arrival list \<Rightarrow> resolve_error + (string \<rightharpoonup> string list)" where
  "resolve_multiple arrivals =
     (let (results, failed) = gather arrivals Map.empty []
      in if results = Map.empty \<and> failed \<noteq> [] then Inl (AllFailed (length arrivals)) else Inr results)"

section \<open>Sampling addresses\<close>

text \<open>The loop that adds the offset, from the last byte on.\<close>

fun add_rev :: "8 word list \<Rightarrow> nat \<Rightarrow> 8 word list" where
  "add_rev [] offset = []"
| "add_rev (b # bs) offset =
     (if offset > 0 then of_nat ((unat b + offset) mod 256) # add_rev bs ((unat b + offset) div 256)
      else b # bs)"

definition add_offset :: "ip \<Rightarrow> nat \<Rightarrow> ip" where
  "add_offset bs offset = rev (add_rev (rev bs) offset)"

text \<open>\<open>r\<close> is the value of \<open>rand.Intn(totalHosts - 1)\<close>.\<close>

definition random_ip_in_network :: "nat \<Rightarrow> ip_net \<Rightarrow> ip option" where
  "random_ip_in_network r network =
     (let a = add_offset (net_ip network) (r + 1)
      in if \<not> net_contains network a then None else Some a)"

text \<open>
  The sampling loop of one prefix: \<open>rand k n\<close> is the \<open>k\<close>-th random number of the run, drawn
  below \<open>n\<close>.
\<close>

fun sample_loop ::
  "(nat \<Rightarrow> nat \<Rightarrow> nat) \<Rightarrow> (ip \<Rightarrow> string) \<Rightarrow> int \<Rightarrow> ip_net \<Rightarrow> nat \<Rightarrow> nat \<Rightarrow> nat \<Rightarrow> string set \<Rightarrow> nat \<times> string set" where
  "sample_loop rand format6 maxIPs network totalHosts k 0 ips = (k, ips)"
| "sample_loop rand format6 maxIPs network totalHosts k (Suc todo) ips =
     (if int (card ips) < maxIPs
      then sample_loop rand format6 maxIPs network totalHosts (Suc k) todo
             (case random_ip_in_network (rand k (totalHosts - 1)) network of
                None \<Rightarrow> ips
              | Some a \<Rightarrow> insert (format_ip format6 a) ips)
      else (k, ips))"

definition sample_size :: "ip_net \<Rightarrow> nat" where
  "sample_size network =
     (let hostBits = net_bits network - net_ones network; capped = (if hostBits > 16 then 16 else hostBits)
      in 2 ^ capped)"

fun expand_loop ::
  "(nat \<Rightarrow> nat \<Rightarrow> nat) \<Rightarrow> (string \<Rightarrow> ip option) \<Rightarrow> (ip \<Rightarrow> string) \<Rightarrow> int \<Rightarrow> nat \<Rightarrow> string list \<Rightarrow> nat \<Rightarrow>
   string set \<Rightarrow> string set" where
  "expand_loop rand parse6 format6 maxIPs target [] k ips = ips"
| "expand_loop rand parse6 format6 maxIPs target (cidr # cidrs) k ips =
     (case parse_cidr parse6 cidr of
        None \<Rightarrow> expand_loop rand parse6 format6 maxIPs target cidrs k ips
      | Some network \<Rightarrow>
          if sample_size network < 2 then expand_loop rand parse6 format6 maxIPs target cidrs k ips
          else let (k', ips') = sample_loop rand format6 maxIPs network (sample_size network) k target ips
               in expand_loop rand parse6 format6 maxIPs target cidrs k' ips')"

text \<open>The result lists the set in the order of a map iteration, so it is described as a set.\<close>

definition expand_cidr ::
  "(nat \<Rightarrow> nat \<Rightarrow> nat) \<Rightarrow> (string \<Rightarrow> ip option) \<Rightarrow> (ip \<Rightarrow> string) \<Rightarrow> string list \<Rightarrow> int \<Rightarrow> string set" where
  "expand_cidr rand parse6 format6 prefixes maxIPs =
     (if prefixes = [] then {}
      else let target = (let t = go_div maxIPs (int (length prefixes)) in if t < 1 then 1 else t)
           in expand_loop rand parse6 format6 maxIPs (nat target) prefixes 0 {})"

section \<open>The addition\<close>

lemma add_rev_length [simp]: "length (add_rev bs off) = length bs"
  by (induction bs off rule: add_rev.induct) simp_all

lemma rev_val_Cons: "ip_val (rev (b # bs)) = ip_val (rev bs) * 256 + unat b"
  by (simp add: ip_val_append)

lemma add_rev_val: "ip_val (rev (add_rev bs off)) = (ip_val (rev bs) + off) mod 256 ^ length bs"
proof (induction bs off rule: add_rev.induct)
  case (2 b bs off)
  show ?case
  proof (cases "off > 0")
    case True
    let ?s = "unat b + off" and ?v = "ip_val (rev bs)" and ?n = "length bs"
    have "unat (of_nat (?s mod 256) :: 8 word) = ?s mod 256"
      by (simp add: unat_of_nat)
    then have "ip_val (rev (add_rev (b # bs) off)) = (?v + ?s div 256) mod 256 ^ ?n * 256 + ?s mod 256"
      using True 2 [OF True] by (simp add: ip_val_append del: rev.simps(2)) (simp add: ip_val_append)
    also have "\<dots> = (?v * 256 + ?s) mod 256 ^ Suc ?n"
    proof -
      have "(?v * 256 + ?s) div 256 = ?v + ?s div 256" "(?v * 256 + ?s) mod 256 = ?s mod 256" by simp_all
      then show ?thesis using mod_mult2_eq [of "?v * 256 + ?s" 256 "256 ^ ?n"] by simp
    qed
    finally show ?thesis by (simp add: ip_val_append add.assoc)
  next
    case False
    then show ?thesis using ip_val_less [of "rev (b # bs)"] by simp
  qed
qed simp

lemma add_offset_val: "ip_val (add_offset bs off) = (ip_val bs + off) mod 256 ^ length bs"
  using add_rev_val [of "rev bs" off] by (simp add: add_offset_def)

lemma add_offset_length [simp]: "length (add_offset bs off) = length bs"
  by (simp add: add_offset_def)

lemma contains_dot_iff: "contains_dot s \<longleftrightarrow> CHR ''.'' \<in> set s"
  by (induction s) auto

lemma sample_loop_sound:
  assumes "finite ips" "int (card ips) \<le> maxIPs"
  shows "finite (snd (sample_loop rand format6 maxIPs network n k todo ips)) \<and> int (card (snd (sample_loop rand format6 maxIPs network n k todo ips))) \<le> maxIPs \<and> ips \<subseteq> (snd (sample_loop rand format6 maxIPs network n k todo ips)) \<and>
    (\<forall>s \<in> (snd (sample_loop rand format6 maxIPs network n k todo ips)). s \<in> ips \<or> (\<exists>a. net_contains network a \<and> s = format_ip format6 a))"
  using assms
proof (induction todo arbitrary: k ips)
  case (Suc todo)
  show ?case
  proof (cases "int (card ips) < maxIPs")
    case True
    show ?thesis
    proof (cases "random_ip_in_network (rand k (n - 1)) network")
      case None
      then show ?thesis using True Suc.IH [OF Suc.prems, of "Suc k"] by simp
    next
      case (Some a)
      let ?i = "insert (format_ip format6 a) ips"
      have "net_contains network a"
        using Some by (simp add: random_ip_in_network_def Let_def split: if_splits)
      moreover have "finite ?i" "int (card ?i) \<le> maxIPs"
        using True Suc.prems(1) by (simp_all add: card_insert_if)
      ultimately show ?thesis using True Some Suc.IH [of ?i "Suc k"] by auto
    qed
  qed (use Suc.prems in simp)
qed simp

lemma expand_loop_sound:
  assumes "finite ips" "int (card ips) \<le> maxIPs"
  shows "finite (expand_loop rand parse6 format6 maxIPs target cidrs k ips) \<and> int (card (expand_loop rand parse6 format6 maxIPs target cidrs k ips)) \<le> maxIPs \<and>
    (\<forall>s \<in> (expand_loop rand parse6 format6 maxIPs target cidrs k ips). s \<in> ips \<or> (\<exists>c \<in> set cidrs. \<exists>network a. parse_cidr parse6 c = Some network \<and>
       net_contains network a \<and> s = format_ip format6 a))"
  using assms
proof (induction cidrs arbitrary: k ips)
  case (Cons c cidrs)
  show ?case
  proof (cases "\<exists>network. parse_cidr parse6 c = Some network \<and> 2 \<le> sample_size network")
    case True
    then obtain network where n: "parse_cidr parse6 c = Some network" "\<not> sample_size network < 2" by auto
    obtain k' i where i: "sample_loop rand format6 maxIPs network (sample_size network) k target ips = (k', i)"
      by fastforce
    have sound: "finite i" "int (card i) \<le> maxIPs"
      "\<forall>s \<in> i. s \<in> ips \<or> (\<exists>a. net_contains network a \<and> s = format_ip format6 a)"
      using sample_loop_sound [OF Cons.prems, of rand format6 network "sample_size network" k target] i by simp_all
    show ?thesis using Cons.IH [OF sound(1,2), of k'] n i sound(3) by simp blast
  next
    case False
    then have "expand_loop rand parse6 format6 maxIPs target (c # cidrs) k ips =
        expand_loop rand parse6 format6 maxIPs target cidrs k ips"
      by (auto split: option.split)
    then show ?thesis using Cons.IH [OF Cons.prems, of k] by auto
  qed
qed simp

section \<open>Properties\<close>

text \<open>
  C35. A random address of an IPv4 network is a member of the network, exactly the drawn offset
  above its first address and so never that address; it prints to text that parses back to it.
  The last address of a network of at most 2 ^ 16 addresses, the broadcast address, is drawn
  for the largest random number, although the code means to skip it.
\<close>

theorem random_ip_in_range:
  assumes "parse_cidr parse6 c = Some network" "net_bits network = 32"
    and "2 \<le> sample_size network" "r < sample_size network - 1"
  shows "\<exists>a. random_ip_in_network r network = Some a \<and> net_contains network a \<and>
    ip_val a = ip_val (net_ip network) + r + 1 \<and> a \<noteq> net_ip network \<and>
    parse_ipv4 (format_ip format6 a) = Some a \<and>
    (16 \<le> net_ones network \<and> r = sample_size network - 2 \<longrightarrow>
       ip_val a = ip_val (net_ip network) + 2 ^ (32 - net_ones network) - 1)"
proof -
  let ?h = "32 - net_ones network" and ?base = "ip_val (net_ip network)" and ?off = "r + 1"
  let ?a = "add_offset (net_ip network) ?off"
  have len: "length (net_ip network) = 4" and ones: "net_ones network \<le> 32"
    and zero: "?base mod 2 ^ ?h = 0"
    using parse_cidr_net [OF assms(1)] assms(2) by simp_all
  have size: "sample_size network \<le> 2 ^ ?h"
    using assms(2) by (simp add: sample_size_def Let_def)
  have off: "?off < 2 ^ ?h" "0 < ?off" using assms(3,4) size by linarith+
  obtain q where q: "?base = q * 2 ^ ?h" using zero by (metis mod_0_imp_dvd dvd_def mult.commute)
  have "?base < 2 ^ 32" using ip_val_less [of "net_ip network"] len by simp
  moreover have p: "(2 :: nat) ^ 32 = 2 ^ net_ones network * 2 ^ ?h" using ones by (simp add: power_add [symmetric])
  ultimately have "q * 2 ^ ?h < 2 ^ net_ones network * 2 ^ ?h" by (simp only: q)
  then have "q < 2 ^ net_ones network" by simp
  then have "(q + 1) * 2 ^ ?h \<le> 2 ^ net_ones network * 2 ^ ?h" by (intro mult_le_mono1) simp
  then have "?base + ?off < 2 ^ 32" using off(1) unfolding q p by (simp add: algebra_simps)
  then have val: "ip_val ?a = ?base + ?off" using len by (simp add: add_offset_val)
  have "(q * B + x) div B = q" if "x < B" for x B :: nat using that by simp
  from this [OF off(1)] have "ip_val ?a div 2 ^ ?h = ?base div 2 ^ ?h" unfolding val q by simp
  then have contains: "net_contains network ?a"
    using len ones assms(2) by (simp add: net_contains4)
  have "format_ip format6 ?a = format_ipv4 ?a" by (simp add: format_ip_def to4_def len)
  then have "parse_ipv4 (format_ip format6 ?a) = Some ?a" using parse_format_ipv4 [of ?a] len by simp
  moreover have "sample_size network = 2 ^ ?h" if "16 \<le> net_ones network"
    using that assms(2) by (simp add: sample_size_def Let_def)
  moreover have "?base + (2 ^ ?h - 2) + 1 = ?base + 2 ^ ?h - 1" using off by linarith
  ultimately show ?thesis
    using val contains off assms(3) by (intro exI [of _ ?a]) (auto simp: random_ip_in_network_def Let_def)
qed

theorem random_ip_in_range_witness:
  "\<exists>network a. parse_cidr (\<lambda>_. None) ''10.0.0.0/30'' = Some network \<and>
     random_ip_in_network 2 network = Some a \<and> ip_val a = ip_val (net_ip network) + 3"
proof -
  obtain network where n: "parse_cidr (\<lambda>_. None) ''10.0.0.0/30'' = Some network" "net_bits network = 32"
    "net_ones network = 30"
    by (simp add: parse_cidr_def parse_addr_def parse_ipv4_def parse_octet_def is_digit_def dtoi_def
        dec_val_def digit_val_def Let_def)
  have "sample_size network = 4" using n by (simp add: sample_size_def)
  then show ?thesis using random_ip_in_range [OF n(1,2), of 2 "\<lambda>_. []"] n(1) by auto
qed

text \<open>
  C36. Whatever the random numbers are, the sample has at most the requested number of
  addresses, and every one is the printed form of an address in a network of the list.
\<close>

theorem expand_cidr_sound:
  assumes "0 \<le> maxIPs"
  shows "finite (expand_cidr rand parse6 format6 prefixes maxIPs) \<and>
    int (card (expand_cidr rand parse6 format6 prefixes maxIPs)) \<le> maxIPs \<and>
    (\<forall>s \<in> expand_cidr rand parse6 format6 prefixes maxIPs.
       \<exists>c \<in> set prefixes. \<exists>network a. parse_cidr parse6 c = Some network \<and> net_contains network a \<and>
         s = format_ip format6 a)"
  using expand_loop_sound [of "{}" maxIPs] assms by (simp add: expand_cidr_def)

theorem expand_cidr_sound_witness:
  "int (card (expand_cidr (\<lambda>k n. k mod n) (\<lambda>_. None) (\<lambda>_. []) [''10.0.0.0/24'', ''10.1.0.0/16''] 5)) \<le> 5"
  using expand_cidr_sound [of 5] by simp

subsection \<open>Several AS numbers\<close>

lemma gather_results:
  "fst (gather (map (\<lambda>a. (a, f a)) as) results failed) a =
     (if a \<in> set as \<and> (\<exists>p. f a = Inr p) then Some (projr (f a)) else results a)"
  "snd (gather (map (\<lambda>a. (a, f a)) as) results failed) = failed @ filter (\<lambda>a. \<exists>e. f a = Inl e) as"
  by (induction as arbitrary: results failed) (auto split: sum.split)

text \<open>
  C37. Resolving several AS numbers does not depend on the order in which the answers arrive:
  the result maps exactly the numbers whose lookup succeeds to their prefixes, and it is an
  error exactly when there is a number and every lookup fails. Every prefix found is one the
  service announced and contains a dot.
\<close>

theorem resolve_multiple_result:
  fixes get :: "string \<Rightarrow> (int \<times> string) option" and decode :: "string \<Rightarrow> string list option"
  defines "look \<equiv> resolve_asn get decode"
  assumes perm: "mset order = mset asns"
  shows "resolve_multiple (map (\<lambda>a. (a, look a)) order) =
      (if asns \<noteq> [] \<and> (\<forall>a \<in> set asns. \<exists>e. look a = Inl e) then Inl (AllFailed (length asns))
       else Inr (\<lambda>a. if a \<in> set asns \<and> (\<exists>p. look a = Inr p) then Some (projr (look a)) else None)) \<and>
    (\<forall>a p. look a = Inr p \<longrightarrow> p \<noteq> [] \<and> (\<forall>x \<in> set p. CHR ''.'' \<in> set x))"
proof -
  have set: "set order = set asns" and len: "length order = length asns"
    using perm by (auto dest: mset_eq_setD mset_eq_length)
  obtain results failed where g: "gather (map (\<lambda>a. (a, look a)) order) Map.empty [] = (results, failed)"
    by fastforce
  have r: "results = (\<lambda>a. if a \<in> set asns \<and> (\<exists>p. look a = Inr p) then Some (projr (look a)) else None)"
    using gather_results(1) [of look order Map.empty "[]"] g set by auto
  have f: "failed = filter (\<lambda>a. \<exists>e. look a = Inl e) order"
    using gather_results(2) [of look order Map.empty "[]"] g by simp
  have either: "(\<exists>e. look a = Inl e) \<longleftrightarrow> \<not> (\<exists>p. look a = Inr p)" for a by (cases "look a") auto
  have "results = Map.empty \<and> failed \<noteq> [] \<longleftrightarrow> asns \<noteq> [] \<and> (\<forall>a \<in> set asns. \<exists>e. look a = Inl e)"
  proof -
    have "results = Map.empty \<longleftrightarrow> (\<forall>a \<in> set asns. \<exists>e. look a = Inl e)"
      unfolding r either by (auto simp: fun_eq_iff)
    moreover have "failed \<noteq> [] \<longleftrightarrow> (\<exists>a \<in> set asns. \<exists>e. look a = Inl e)"
      unfolding f by (auto simp: filter_empty_conv set [symmetric])
    ultimately show ?thesis by (cases asns) auto
  qed
  then have "resolve_multiple (map (\<lambda>a. (a, look a)) order) =
      (if asns \<noteq> [] \<and> (\<forall>a \<in> set asns. \<exists>e. look a = Inl e) then Inl (AllFailed (length asns)) else Inr results)"
    using len by (simp add: resolve_multiple_def g)
  moreover have "p \<noteq> [] \<and> (\<forall>x \<in> set p. CHR ''.'' \<in> set x)" if "look a = Inr p" for a p
    using that by (auto simp: look_def resolve_asn_def Let_def contains_dot_iff split: option.splits if_splits)
  ultimately show ?thesis unfolding r by blast
qed

theorem resolve_multiple_result_witness:
  "let get = (\<lambda>url. if url = ripe_url ''13335'' then Some (200, ''b'') else None);
       look = resolve_asn get (\<lambda>_. Some [''1.1.1.0/24'', ''2606::/32''])
   in resolve_multiple (map (\<lambda>a. (a, look a)) [''AS7'', ''AS13335'']) =
        Inr (\<lambda>a. if a \<in> {''AS13335'', ''AS7''} \<and> (\<exists>p. look a = Inr p) then Some (projr (look a)) else None)"
proof -
  let ?get = "\<lambda>url. if url = ripe_url ''13335'' then Some (200, ''b'') else None"
  let ?dec = "\<lambda>_. Some [''1.1.1.0/24'', ''2606::/32'']"
  have "resolve_asn ?get ?dec ''AS13335'' = Inr [''1.1.1.0/24'']"
    by (simp add: resolve_asn_def normalize_asn_def Let_def)
  then show ?thesis
    using conjunct1 [OF resolve_multiple_result [of "[''AS7'', ''AS13335'']" "[''AS13335'', ''AS7'']" ?get ?dec]]
    by (simp add: Let_def add_mset_commute)
qed

end
