(* ===== verification/Scanner.thy ===== *)
theory Scanner
  imports Text
begin

text \<open>
  The TLS check of one address (\<open>internal/scanner/scanner.go\<close>). The handshake is a parameter:
  it gives the names of the certificates the peer presents, or fails; the two clock readings
  are its duration.
\<close>

record scan_result =
  sr_ip :: string
  sr_port :: int
  sr_is_cf :: bool
  sr_delay :: int

record scanner_config =
  sc_concurrency :: int
  sc_connect_to :: duration
  sc_target_port :: int
  sc_sni :: string

definition scanner_defaults :: scanner_config where
  "scanner_defaults = \<lparr>sc_concurrency = 100, sc_connect_to = 1500 * 1000000, sc_target_port = 443,
                      sc_sni = ''cloudflare.com''\<rparr>"

record certificate =
  cert_common_name :: string
  cert_dns_names :: "string list"

text \<open>\<open>net.JoinHostPort\<close>: an address with a colon is bracketed.\<close>

definition join_host_port :: "string \<Rightarrow> string \<Rightarrow> string" where
  "join_host_port host port =
     (if CHR '':'' \<in> set host then ''['' @ host @ '']:'' @ port else host @ '':'' @ port)"

fun names_match :: "string list \<Rightarrow> bool" where
  "names_match [] = False"
| "names_match (n # ns) = (if contains n ''cloudflare.com'' then True else names_match ns)"

fun certs_match :: "certificate list \<Rightarrow> bool" where
  "certs_match [] = False"
| "certs_match (c # cs) =
     (if contains (cert_common_name c) ''cloudflare.com'' then True
      else if names_match (cert_dns_names c) then True else certs_match cs)"

definition check_proxy ::
  "(string \<Rightarrow> duration \<Rightarrow> string \<Rightarrow> certificate list option) \<Rightarrow> duration \<Rightarrow> string \<Rightarrow> int \<Rightarrow> scanner_config \<Rightarrow>
   scan_result" where
  "check_proxy handshake elapsed ip port cfg =
     (let delay = go_div elapsed 1000000
      in case handshake (join_host_port ip (fmt_d port)) (sc_connect_to cfg) (sc_sni cfg) of
           None \<Rightarrow> \<lparr>sr_ip = ip, sr_port = port, sr_is_cf = False, sr_delay = delay\<rparr>
         | Some certs \<Rightarrow> \<lparr>sr_ip = ip, sr_port = port, sr_is_cf = certs_match certs, sr_delay = delay\<rparr>)"

lemma contains_iff: "contains s p \<longleftrightarrow> (\<exists>x y. s = x @ p @ y)"
proof (induction s)
  case (Cons c cs)
  have "has_prefix (c # cs) p \<longleftrightarrow> (\<exists>y. c # cs = p @ y)"
    unfolding has_prefix_def by (metis append_eq_conv_conj append_take_drop_id)
  moreover have "(\<exists>x y. c # cs = x @ p @ y) \<longleftrightarrow> (\<exists>y. c # cs = p @ y) \<or> (\<exists>x y. cs = x @ p @ y)"
    by (metis append_Cons append_eq_Cons_conv append_Nil)
  ultimately show ?case using Cons by simp
qed simp

lemma names_match_iff: "names_match ns \<longleftrightarrow> (\<exists>n \<in> set ns. contains n ''cloudflare.com'')"
  by (induction ns) auto

lemma certs_match_iff:
  "certs_match certs \<longleftrightarrow> (\<exists>c \<in> set certs. \<exists>name \<in> set (cert_common_name c # cert_dns_names c).
     contains name ''cloudflare.com'')"
  by (induction certs) (auto simp: names_match_iff)

text \<open>
  An address is reported as a proxy exactly when the handshake succeeds and some
  certificate of the chain has \<open>cloudflare.com\<close> anywhere in its common name or in one of its
  DNS names; the result repeats the address and port it was asked about. A name such as
  \<open>notcloudflare.com.example\<close> counts.
\<close>

theorem check_proxy_verdict:
  "(sr_is_cf (check_proxy handshake elapsed ip port cfg) \<longleftrightarrow>
     (\<exists>certs. handshake (join_host_port ip (fmt_d port)) (sc_connect_to cfg) (sc_sni cfg) = Some certs \<and>
        (\<exists>c \<in> set certs. \<exists>name \<in> set (cert_common_name c # cert_dns_names c).
           \<exists>before after. name = before @ ''cloudflare.com'' @ after))) \<and>
    sr_ip (check_proxy handshake elapsed ip port cfg) = ip \<and>
    sr_port (check_proxy handshake elapsed ip port cfg) = port"
  unfolding contains_iff [symmetric]
  by (auto simp: check_proxy_def Let_def certs_match_iff split: option.split)

end
