(* ===== verification/ScanPhase.thy ===== *)
theory ScanPhase
  imports Scanner
begin

text \<open>
  The TLS phase of a task (phase 2 of \<open>TaskRunner.run\<close>, \<open>internal/worker/runner.go\<close>): the
  goroutine that feeds the \<open>jobs\<close> channel, the goroutine that takes jobs under a semaphore and
  starts a check for each, and the main loop that selects between the stop signal, a result and
  the progress ticker, as a step relation. The stop signal and the ticker are steps of the
  environment.
\<close>

section \<open>State\<close>

datatype scan_main = Scanning | ScanDone | ScanCancelled

record scan_found =
  fd_ip :: string
  fd_port :: int
  fd_delay :: int

text \<open>
  The feeder with the jobs it still has to send, the \<open>jobs\<close> channel (which has room for all of
  them) and whether it is closed, the checks that hold the semaphore, the \<open>results\<close> channel and
  whether it is closed, and the variables of the main loop. A job is received and the semaphore
  acquired in one step: nobody looks at the channel in between. \<open>sn_ticks\<close> records
  \<open>scanned\<close> and \<open>hits\<close> at each tick, which is what the progress report of the tick shows.
\<close>

record scan_state =
  sn_stopped :: bool
  sn_todo :: "(string \<times> int) list"
  sn_feeding :: bool
  sn_jobs :: "(string \<times> int) list"
  sn_closed :: bool
  sn_flight :: "(string \<times> int) multiset"
  sn_results :: "scan_result list"
  sn_results_closed :: bool
  sn_main :: scan_main
  sn_scanned :: int
  sn_hits :: int
  sn_cf_hits :: "scan_result list"
  sn_ticks :: "(int \<times> int) list"

text \<open>The jobs in the order the feeder sends them.\<close>

fun scan_jobs :: "string list \<Rightarrow> int list \<Rightarrow> (string \<times> int) list" where
  "scan_jobs [] ports = []"
| "scan_jobs (ip # ips) ports = map (Pair ip) ports @ scan_jobs ips ports"

definition scan_init :: "bool \<Rightarrow> string list \<Rightarrow> int list \<Rightarrow> scan_state" where
  "scan_init stopped ips ports =
     \<lparr>sn_stopped = stopped, sn_todo = scan_jobs ips ports, sn_feeding = True, sn_jobs = [], sn_closed = False,
      sn_flight = {#}, sn_results = [], sn_results_closed = False, sn_main = Scanning, sn_scanned = 0,
      sn_hits = 0, sn_cf_hits = [], sn_ticks = []\<rparr>"

text \<open>A result received by the main loop.\<close>

definition receive_result :: "scan_result \<Rightarrow> scan_state \<Rightarrow> scan_state" where
  "receive_result r s =
     (let s1 = s\<lparr>sn_scanned := sn_scanned s + 1\<rparr>
      in if sr_is_cf r then s1\<lparr>sn_hits := sn_hits s1 + 1, sn_cf_hits := sn_cf_hits s1 @ [r]\<rparr> else s1)"

section \<open>Steps\<close>

text \<open>
  A \<open>select\<close> with several ready cases takes any of them, so after the stop signal the feeder may
  go on or return (without closing \<open>jobs\<close>), a check may deliver its result or drop it, and the
  main loop may receive or return. The \<open>break\<close> in the dispatcher's \<open>select\<close> only leaves the
  \<open>select\<close>: the dispatcher keeps starting checks.
\<close>

inductive scan_step :: "(string \<Rightarrow> int \<Rightarrow> scan_result) \<Rightarrow> nat \<Rightarrow> scan_state \<Rightarrow> scan_state \<Rightarrow> bool"
  for check :: "string \<Rightarrow> int \<Rightarrow> scan_result" and concurrency :: nat where
  sn_feed: "sn_feeding s \<Longrightarrow> sn_todo s = j # js \<Longrightarrow>
    scan_step check concurrency s (s\<lparr>sn_todo := js, sn_jobs := sn_jobs s @ [j]\<rparr>)"
| sn_feed_quit: "sn_feeding s \<Longrightarrow> sn_todo s = j # js \<Longrightarrow> sn_stopped s \<Longrightarrow>
    scan_step check concurrency s (s\<lparr>sn_feeding := False\<rparr>)"
| sn_feed_close: "sn_feeding s \<Longrightarrow> sn_todo s = [] \<Longrightarrow>
    scan_step check concurrency s (s\<lparr>sn_feeding := False, sn_closed := True\<rparr>)"
| sn_start: "sn_jobs s = j # js \<Longrightarrow> size (sn_flight s) < concurrency \<Longrightarrow>
    scan_step check concurrency s (s\<lparr>sn_jobs := js, sn_flight := add_mset j (sn_flight s)\<rparr>)"
| sn_deliver: "(ip, port) \<in># sn_flight s \<Longrightarrow> length (sn_results s) < concurrency \<Longrightarrow>
    scan_step check concurrency s
      (s\<lparr>sn_flight := sn_flight s - {#(ip, port)#}, sn_results := sn_results s @ [check ip port]\<rparr>)"
| sn_discard: "j \<in># sn_flight s \<Longrightarrow> sn_stopped s \<Longrightarrow>
    scan_step check concurrency s (s\<lparr>sn_flight := sn_flight s - {#j#}\<rparr>)"
| sn_close: "sn_closed s \<Longrightarrow> sn_jobs s = [] \<Longrightarrow> sn_flight s = {#} \<Longrightarrow> \<not> sn_results_closed s \<Longrightarrow>
    scan_step check concurrency s (s\<lparr>sn_results_closed := True\<rparr>)"
| sn_receive: "sn_main s = Scanning \<Longrightarrow> sn_results s = r # rs \<Longrightarrow>
    scan_step check concurrency s (receive_result r (s\<lparr>sn_results := rs\<rparr>))"
| sn_finish: "sn_main s = Scanning \<Longrightarrow> sn_results s = [] \<Longrightarrow> sn_results_closed s \<Longrightarrow>
    scan_step check concurrency s (s\<lparr>sn_main := ScanDone\<rparr>)"
| sn_cancel: "sn_main s = Scanning \<Longrightarrow> sn_stopped s \<Longrightarrow>
    scan_step check concurrency s (s\<lparr>sn_main := ScanCancelled\<rparr>)"

inductive scan_env :: "scan_state \<Rightarrow> scan_state \<Rightarrow> bool" where
  sn_tick: "sn_main s = Scanning \<Longrightarrow>
    scan_env s (s\<lparr>sn_ticks := sn_ticks s @ [(sn_scanned s, sn_hits s)]\<rparr>)"
| sn_stop: "\<not> sn_stopped s \<Longrightarrow> scan_env s (s\<lparr>sn_stopped := True\<rparr>)"

definition scan_next :: "(string \<Rightarrow> int \<Rightarrow> scan_result) \<Rightarrow> nat \<Rightarrow> scan_state \<Rightarrow> scan_state \<Rightarrow> bool" where
  "scan_next check concurrency s t \<longleftrightarrow> scan_step check concurrency s t \<or> scan_env s t"

section \<open>Termination\<close>

definition scan_work :: "scan_state \<Rightarrow> nat" where
  "scan_work s = 4 * length (sn_todo s) + 3 * length (sn_jobs s) + 2 * size (sn_flight s) + length (sn_results s) +
     (if sn_feeding s then 1 else 0) + (if sn_results_closed s then 0 else 1) +
     (if sn_main s = Scanning then 1 else 0)"

lemma scan_step_work: "scan_step check c s t \<Longrightarrow> scan_work t < scan_work s"
  by (induction rule: scan_step.induct)
     (auto simp: scan_work_def receive_result_def Let_def size_Diff_singleton dest!: multi_member_split)

lemma scan_terminates: "wf {(t, s). scan_step check c s t}"
  by (rule wf_subset [OF wf_measure [of scan_work]]) (auto simp: scan_step_work)

section \<open>Invariant\<close>

text \<open>
  While the task is not stopped every job is in exactly one place, and at any time the counters
  describe the results received, which are results of jobs of the task.
\<close>

definition scan_flags :: "nat \<Rightarrow> scan_state \<Rightarrow> bool" where
  "scan_flags c s \<longleftrightarrow>
     size (sn_flight s) \<le> c \<and> length (sn_results s) \<le> c \<and>
     (sn_closed s \<longrightarrow> \<not> sn_feeding s \<and> sn_todo s = []) \<and> (sn_feeding s \<or> sn_closed s \<or> sn_stopped s) \<and>
     (sn_results_closed s \<longrightarrow> sn_closed s \<and> sn_jobs s = [] \<and> sn_flight s = {#}) \<and>
     (sn_main s = ScanDone \<longrightarrow> sn_results_closed s \<and> sn_results s = []) \<and>
     (sn_main s = ScanCancelled \<longrightarrow> sn_stopped s)"

definition checked :: "(string \<Rightarrow> int \<Rightarrow> scan_result) \<Rightarrow> string \<times> int \<Rightarrow> scan_result" where
  "checked check j = check (fst j) (snd j)"

definition accounted :: "(string \<Rightarrow> int \<Rightarrow> scan_result) \<Rightarrow> (string \<times> int) list \<Rightarrow> scan_state \<Rightarrow>
    (string \<times> int) list \<Rightarrow> (string \<times> int) list \<Rightarrow> (string \<times> int) multiset \<Rightarrow> bool" where
  "accounted check jobs s queued received lost \<longleftrightarrow>
     mset jobs = mset (sn_todo s) + mset (sn_jobs s) + sn_flight s + mset queued + mset received + lost \<and>
     (lost \<noteq> {#} \<longrightarrow> sn_stopped s) \<and> sn_results s = map (checked check) queued \<and>
     sn_scanned s = int (length received) \<and> sn_hits s = int (length (sn_cf_hits s)) \<and>
     sn_cf_hits s = filter sr_is_cf (map (checked check) received)"

definition scan_inv :: "(string \<Rightarrow> int \<Rightarrow> scan_result) \<Rightarrow> nat \<Rightarrow> (string \<times> int) list \<Rightarrow> scan_state \<Rightarrow> bool" where
  "scan_inv check c jobs s \<longleftrightarrow> scan_flags c s \<and> (\<exists>queued received lost. accounted check jobs s queued received lost)"

lemma scan_inv_init: "scan_inv check c (scan_jobs ips ports) (scan_init b ips ports)"
proof -
  have "accounted check (scan_jobs ips ports) (scan_init b ips ports) [] [] {#}"
    by (simp add: accounted_def scan_init_def)
  then show ?thesis by (auto simp: scan_inv_def scan_flags_def scan_init_def)
qed

lemma size_drop_le: "size M \<le> (n :: nat) \<Longrightarrow> size (M - {#x#}) \<le> n"
  using size_Diff1_le [of M x] by linarith

lemma scan_flags_step:
  assumes "scan_flags c s" "scan_step check c s t"
  shows "scan_flags c t"
  using assms(2,1)
  by cases (simp_all add: scan_flags_def receive_result_def Let_def size_drop_le, auto)

lemma scan_flags_env: "scan_flags c s \<Longrightarrow> scan_env s t \<Longrightarrow> scan_flags c t"
  by (auto simp: scan_flags_def elim!: scan_env.cases)

lemma scan_flags_next: "scan_flags c s \<Longrightarrow> scan_next check c s t \<Longrightarrow> scan_flags c t"
  unfolding scan_next_def by (blast intro: scan_flags_step scan_flags_env)

lemma accounted_env: "accounted check jobs s q r l \<Longrightarrow> scan_env s t \<Longrightarrow> accounted check jobs t q r l"
  by (auto simp: accounted_def elim!: scan_env.cases)

lemma accounted_step:
  assumes acc: "accounted check jobs s queued received lost" and step: "scan_step check c s t"
  shows "\<exists>queued received lost. accounted check jobs t queued received lost"
  using step
proof cases
  case (sn_deliver ip port)
  then obtain f where "sn_flight s = add_mset (ip, port) f" by (metis mset_add)
  then have "accounted check jobs t (queued @ [(ip, port)]) received lost"
    using acc sn_deliver by (simp add: accounted_def checked_def)
  then show ?thesis by blast
next
  case (sn_discard j)
  then obtain f where "sn_flight s = add_mset j f" by (metis mset_add)
  then have "accounted check jobs t queued received (add_mset j lost)"
    using acc sn_discard by (simp add: accounted_def)
  then show ?thesis by blast
next
  case (sn_receive r rs)
  then obtain j q where "queued = j # q" "r = checked check j" "rs = map (checked check) q"
    using acc by (cases queued) (auto simp: accounted_def)
  then have "accounted check jobs t q (received @ [j]) lost"
    using acc sn_receive by (simp add: accounted_def receive_result_def Let_def)
  then show ?thesis by blast
next
  case (sn_feed j js)
  then have "accounted check jobs t queued received lost" using acc by (simp add: accounted_def)
  then show ?thesis by blast
next
  case (sn_start j js)
  then have "accounted check jobs t queued received lost" using acc by (simp add: accounted_def)
  then show ?thesis by blast
qed (use acc in \<open>auto simp: accounted_def\<close>)

lemma scan_inv_next: "scan_inv check c jobs s \<Longrightarrow> scan_next check c s t \<Longrightarrow> scan_inv check c jobs t"
  using scan_flags_next accounted_step accounted_env unfolding scan_inv_def scan_next_def by meson

interpretation scm: machine_invariant "\<lambda>s. s = scan_init b ips ports" "scan_next check c"
    "scan_inv check c (scan_jobs ips ports)"
  for b ips ports check c
  by unfold_locales (auto simp: scan_inv_init intro: scan_inv_next)

section \<open>Final states\<close>

lemma scan_stuck:
  assumes flags: "scan_flags c s" and stuck: "\<nexists>t. scan_step check c s t" and c: "0 < c"
  shows "sn_main s \<noteq> Scanning" "sn_flight s = {#}"
    "\<not> sn_stopped s \<Longrightarrow> sn_main s = ScanDone \<and> sn_todo s = [] \<and> sn_jobs s = []"
proof -
  have fl: "sn_flight s = {#} \<or> \<not> length (sn_results s) < c"
    using stuck sn_deliver by (metis multiset_nonemptyE surj_pair)
  have rec: "sn_results s = []" "\<not> sn_results_closed s" "\<not> sn_stopped s" if "sn_main s = Scanning"
  proof -
    show "sn_results s = []" using stuck that by (cases "sn_results s") (auto dest: sn_receive)
    then show "\<not> sn_results_closed s" using stuck that by (auto dest: sn_finish)
    show "\<not> sn_stopped s" using stuck that by (auto dest: sn_cancel)
  qed
  have disc: "sn_stopped s \<Longrightarrow> sn_flight s = {#}"
    using stuck sn_discard by (metis multiset_nonemptyE)
  have feed: "\<not> sn_feeding s"
    using stuck by (cases "sn_todo s") (auto dest: sn_feed sn_feed_close)
  have jobs: "sn_jobs s = []" if "sn_flight s = {#}"
    using stuck c that by (cases "sn_jobs s") (auto dest: sn_start)
  have close: "sn_closed s \<Longrightarrow> sn_jobs s = [] \<Longrightarrow> sn_flight s = {#} \<Longrightarrow> sn_results_closed s"
    using stuck sn_close by blast
  show main: "sn_main s \<noteq> Scanning"
  proof
    assume m: "sn_main s = Scanning"
    then have "sn_flight s = {#}" using fl rec(1) c by auto
    then show False using rec(2,3) [OF m] jobs close feed flags by (auto simp: scan_flags_def)
  qed
  then have "sn_main s = ScanDone \<or> sn_stopped s"
    using flags by (cases "sn_main s") (auto simp: scan_flags_def)
  then show "sn_flight s = {#}" "\<not> sn_stopped s \<Longrightarrow> sn_main s = ScanDone \<and> sn_todo s = [] \<and> sn_jobs s = []"
    using disc flags by (auto simp: scan_flags_def)
qed

lemma accounted_done:
  assumes "scan_inv check c jobs s" "\<not> sn_stopped s" "sn_main s = ScanDone"
  shows "sn_scanned s = int (length jobs) \<and> sn_hits s = int (length (sn_cf_hits s)) \<and>
    mset (sn_cf_hits s) = mset (filter sr_is_cf (map (checked check) jobs))"
proof -
  obtain queued received lost where acc: "accounted check jobs s queued received lost" and fl: "scan_flags c s"
    using assms(1) by (auto simp: scan_inv_def)
  have "sn_todo s = []" "sn_jobs s = []" "sn_flight s = {#}" "sn_results s = []"
    using fl assms(3) by (auto simp: scan_flags_def)
  then have m: "mset jobs = mset received" using acc assms(2) by (auto simp: accounted_def)
  have parts: "sn_cf_hits s = filter sr_is_cf (map (checked check) received)"
    "sn_scanned s = int (length received)" "sn_hits s = int (length (sn_cf_hits s))"
    using acc unfolding accounted_def by blast+
  have "mset (sn_cf_hits s) = mset (filter sr_is_cf (map (checked check) jobs))"
    by (simp only: parts(1) mset_filter mset_map m)
  then show ?thesis using parts(2,3) mset_eq_length [OF m] by linarith
qed

lemma length_scan_jobs: "length (scan_jobs ips ports) = length ips * length ports"
  by (induction ips) simp_all

lemma set_scan_jobs: "set (scan_jobs ips ports) = set ips \<times> set ports"
  by (induction ips) auto

text \<open>Undisturbed, the phase does come to an end.\<close>

lemma scan_step_stopped: "scan_step check c s t \<Longrightarrow> sn_stopped t = sn_stopped s"
  by (induction rule: scan_step.induct) (simp_all add: receive_result_def Let_def)

lemma scan_runs_to_end:
  "\<exists>s. reach (\<lambda>s. s = scan_init False ips ports) (scan_next check c) s \<and>
     (\<nexists>t. scan_step check c s t) \<and> \<not> sn_stopped s"
proof -
  let ?good = "\<lambda>s. reach (\<lambda>s. s = scan_init False ips ports) (scan_next check c) s \<and> \<not> sn_stopped s"
  have "?good (scan_init False ips ports)" by (auto intro: reach_init simp: scan_init_def)
  moreover have "\<And>s t. ?good s \<Longrightarrow> scan_step check c s t \<Longrightarrow> ?good t"
    using scan_step_stopped by (auto simp: scan_next_def intro: reach_step)
  ultimately show ?thesis
    using runs_to_end [OF scan_terminates, of ?good] by blast
qed

section \<open>Property\<close>

text \<open>
  C6. The phase neither runs forever nor deadlocks: only finitely many steps are possible
  without the ticker, and when no step is left the main loop has returned. If the task was
  never stopped it then has received exactly one result for every address and port, and its
  counters and hits are those of all the results. It can report a cancellation only after a stop
  signal. At no time are more checks running than the configured concurrency.
\<close>

theorem scan_phase_outcome:
  assumes "reach (\<lambda>s. s = scan_init False ips ports) (scan_next check c) s" "0 < c"
  shows "wf {(t, s). scan_step check c s t} \<and> size (sn_flight s) \<le> c \<and>
    (sn_main s = ScanCancelled \<longrightarrow> sn_stopped s) \<and>
    ((\<nexists>t. scan_step check c s t) \<longrightarrow> sn_main s \<noteq> Scanning) \<and>
    ((\<nexists>t. scan_step check c s t) \<and> \<not> sn_stopped s \<longrightarrow>
       sn_main s = ScanDone \<and> sn_scanned s = int (length ips * length ports) \<and>
       sn_hits s = int (length (sn_cf_hits s)) \<and>
       mset (sn_cf_hits s) =
         mset (filter sr_is_cf (map (\<lambda>(ip, port). check ip port) (List.product ips ports))))"
proof -
  have inv: "scan_inv check c (scan_jobs ips ports) s" by (rule scm.inv_reach [OF assms(1)])
  then have fl: "scan_flags c s" by (simp add: scan_inv_def)
  have "scan_jobs ips ports = List.product ips ports" by (induction ips) simp_all
  then show ?thesis
    using scan_terminates [of check c] fl scan_stuck [OF fl _ assms(2)] accounted_done [OF inv]
      length_scan_jobs [of ips ports]
    by (auto simp: scan_flags_def checked_def [abs_def] case_prod_unfold)
qed

text \<open>One address, one port, run to the end.\<close>

theorem scan_phase_outcome_witness:
  "\<exists>s. reach (\<lambda>s. s = scan_init False [''1.1.1.1''] [443]) (scan_next (\<lambda>ip port. \<lparr>sr_ip = ip, sr_port = port, sr_is_cf = True, sr_delay = 7\<rparr>) 1) s \<and>
     sn_main s = ScanDone \<and> sn_scanned s = 1 \<and> sn_hits s = 1"
proof -
  let ?check = "\<lambda>ip port. \<lparr>sr_ip = ip, sr_port = port, sr_is_cf = True, sr_delay = 7\<rparr>"
  let ?init = "scan_init False [''1.1.1.1''] [443]"
  let ?reach = "reach (\<lambda>s. s = ?init) (scan_next ?check 1)"
  obtain s where s: "?reach s" "\<nexists>t. scan_step ?check 1 s t" "\<not> sn_stopped s"
    using scan_runs_to_end [of "[''1.1.1.1'']" "[443]" ?check 1] by blast
  then show ?thesis using scan_phase_outcome [OF s(1)] by (intro exI [of _ s]) auto
qed

end
