(* ===== verification/Runner.thy ===== *)
theory Runner
  imports Protocol Masscan Verifier Resolver ScanPhase
begin

text \<open>
  The task runner of a worker (\<open>internal/worker/runner.go\<close>): the runner with its channels, and
  \<open>run\<close> with its three phases (targets, TLS checks, verification). \<open>run\<close> is described by what
  it sends: the progress reports it offers and the result, in order. \<open>emit\<close> is one such send on
  the runner's channels; between two of them the client may drain the channels.
\<close>

section \<open>The runner\<close>

record task_runner =
  rn_task_id :: string
  rn_asns :: "string list"
  rn_cidrs :: "string list"
  rn_ports :: "int list"
  rn_max_rate :: int
  rn_status :: string
  rn_phase :: string
  rn_max_concurrency :: int
  rn_ips :: "string list"
  rn_shard_index :: int
  rn_shard_total :: int
  rn_progress :: "report_params list"
  rn_result :: "task_result list"
  rn_stopped :: bool

definition new_task_runner :: "string \<Rightarrow> string list \<Rightarrow> int list \<Rightarrow> int \<Rightarrow> task_runner" where
  "new_task_runner taskID asns ports maxRate =
     \<lparr>rn_task_id = taskID, rn_asns = asns, rn_cidrs = [], rn_ports = ports, rn_max_rate = maxRate,
      rn_status = ''running'', rn_phase = [], rn_max_concurrency = 0, rn_ips = [], rn_shard_index = 0,
      rn_shard_total = 0, rn_progress = [], rn_result = [], rn_stopped = False\<rparr>"

definition set_ips :: "string list \<Rightarrow> task_runner \<Rightarrow> task_runner" where
  "set_ips ips r = r\<lparr>rn_ips := ips\<rparr>"

definition set_shard :: "int \<Rightarrow> int \<Rightarrow> task_runner \<Rightarrow> task_runner" where
  "set_shard index shards r = r\<lparr>rn_shard_index := index, rn_shard_total := shards\<rparr>"

text \<open>Closing a closed channel panics.\<close>

definition runner_stop :: "task_runner \<Rightarrow> task_runner outcome" where
  "runner_stop r = (if rn_stopped r then Panics r else Returns (r\<lparr>rn_stopped := True\<rparr>))"

datatype run_output = Progress report_params | Result task_result

definition progress :: "task_runner \<Rightarrow> string \<Rightarrow> string \<Rightarrow> int \<Rightarrow> int \<Rightarrow> int \<Rightarrow> run_output" where
  "progress r phase prog scanned whole hits =
     Progress \<lparr>rep_task_id = rn_task_id r, rep_phase = phase, rep_progress = prog, rep_scanned_ips = scanned,
               rep_total_ips = whole, rep_hits = hits, rep_ack_event_ids = []\<rparr>"

text \<open>
  A report is dropped when the channel of ten is full; the result blocks (\<open>None\<close>) when the
  channel of one is.
\<close>

definition emit :: "run_output \<Rightarrow> task_runner \<Rightarrow> task_runner option" where
  "emit out r =
     (case out of
        Progress p \<Rightarrow> Some (if length (rn_progress r) < 10 then r\<lparr>rn_progress := rn_progress r @ [p]\<rparr> else r)
      | Result t \<Rightarrow> if length (rn_result r) < 1 then Some (r\<lparr>rn_result := rn_result r @ [t]\<rparr>) else None)"

definition fail_result :: "task_runner \<Rightarrow> run_output" where
  "fail_result r = Result \<lparr>tr_task_id = rn_task_id r, tr_status = ''failed'', tr_hits = 0, tr_total_ips = 0,
                           tr_duration = [], tr_results = []\<rparr>"

definition cap_concurrency :: "int \<Rightarrow> int" where
  "cap_concurrency rate = (let c = go_div rate 150 in if c < 10 then 10 else if c > 500 then 500 else c)"

definition pct_str :: "int \<Rightarrow> string" where
  "pct_str n = itoa (if n > 100 then 100 else n) @ ''%''"

section \<open>The environment of a run\<close>

text \<open>
  What \<open>run\<close> relies on: the HTTP exchange and JSON decoding behind the resolver with the order
  in which its goroutines answer (\<open>re_asn_order\<close>), the random numbers, the text of IPv6
  addresses, the order in which the keys of a map are iterated (\<open>re_set_order\<close>), the operating system and the masscan process, the
  TLS handshake and how long it takes, the exchange with the verification service, the
  \<open>float64\<close> percentage of a progress report, and the duration printed at the end.
\<close>

record run_env =
  re_get :: "string \<Rightarrow> (int \<times> string) option"
  re_decode :: "string \<Rightarrow> string list option"
  re_asn_order :: "string list \<Rightarrow> string list"
  re_rand :: "nat \<Rightarrow> nat \<Rightarrow> nat"
  re_parse6 :: "string \<Rightarrow> ip option"
  re_format6 :: "ip \<Rightarrow> string"
  re_set_order :: "string set \<Rightarrow> string list"
  re_os :: os_env
  re_handshake :: "string \<Rightarrow> duration \<Rightarrow> string \<Rightarrow> certificate list option"
  re_elapsed :: "string \<Rightarrow> int \<Rightarrow> duration"
  re_check_get :: "string \<Rightarrow> string option"
  re_check_decode :: "string \<Rightarrow> check_result option"
  re_percent :: "int \<Rightarrow> int \<Rightarrow> int"
  re_duration :: string

section \<open>Phase 1: targets\<close>

definition masscan_rate :: "task_runner \<Rightarrow> int" where
  "masscan_rate r = (if rn_max_rate r < 1000 then 1000 else rn_max_rate r)"

definition len :: "'a list \<Rightarrow> int" where
  "len xs = int (length xs)"

definition live_hosts :: "run_env \<Rightarrow> masscan_result list \<Rightarrow> string list" where
  "live_hosts env results = re_set_order env (mr_ip ` set results)"

text \<open>Any error of masscan means that all addresses are used.\<close>

definition run_masscan :: "run_env \<Rightarrow> task_runner \<Rightarrow> string list \<Rightarrow> run_output list \<times> string list" where
  "run_masscan env r ips =
     (let mc = Masscan.default_config\<lparr>mc_ips := ips, mc_ports := rn_ports r, mc_rate := masscan_rate r\<rparr>;
          start = progress r ''masscan'' ''0%'' 0 (len ips) 0
      in case Masscan.run (re_os env) mc of
           (results, Some _) \<Rightarrow> ([start, progress r ''masscan'' ''skipped'' (len ips) (len ips) 0], ips)
         | (results, None) \<Rightarrow>
             let live = live_hosts env results
             in ([start, progress r ''masscan'' ''100%'' (len live) (len ips) 0], live))"

text \<open>\<open>None\<close> is the \<open>nil\<close> slice, on which \<open>run\<close> returns.\<close>

definition cidr_config :: "task_runner \<Rightarrow> string list \<Rightarrow> masscan_config" where
  "cidr_config r cidrs =
     Masscan.default_config\<lparr>mc_cidrs := cidrs, mc_ports := rn_ports r, mc_rate := masscan_rate r, mc_timeout := 0\<rparr>"

definition run_masscan_cidrs :: "run_env \<Rightarrow> task_runner \<Rightarrow> string list \<Rightarrow> run_output list \<times> string list option" where
  "run_masscan_cidrs env r cidrs =
     (let start = progress r ''masscan'' ''0%'' 0 (len cidrs) 0;
          found = (\<lambda>results. let live = live_hosts env results
                             in ([start, progress r ''masscan'' ''100%'' (len live) (len cidrs) 0], Some live))
      in case Masscan.run (re_os env) (cidr_config r cidrs) of
           (results, Some e) \<Rightarrow>
             if e = NotFound then ([start, fail_result r], None)
             else if results = [] then ([start, progress r ''masscan'' ''100%'' 0 (len cidrs) 0], None)
             else found results
         | (results, None) \<Rightarrow> found results)"

definition ip_sample_size :: "task_runner \<Rightarrow> int" where
  "ip_sample_size r = (if rn_max_rate r > 0 then rn_max_rate r * 3 else 50000)"

definition sample_phase :: "run_env \<Rightarrow> task_runner \<Rightarrow> string list \<Rightarrow> run_output list \<times> string list option" where
  "sample_phase env r allCIDRs =
     (let generated = re_set_order env (expand_cidr (re_rand env) (re_parse6 env) (re_format6 env) allCIDRs
                        (ip_sample_size r));
          report = progress r ''resolve'' ''100%'' (len generated) (len allCIDRs) 0
      in if generated = [] then ([report, fail_result r], None)
         else let (outs, live) = run_masscan env r generated in (report # outs, Some live))"

definition resolve_phase :: "run_env \<Rightarrow> task_runner \<Rightarrow> run_output list \<times> string list option" where
  "resolve_phase env r =
     (let start = progress r ''resolve'' ''0%'' 0 0 0
      in case resolve_multiple (map (\<lambda>a. (a, resolve_asn (re_get env) (re_decode env) a))
                                 (re_asn_order env (rn_asns r))) of
           Inl e \<Rightarrow> ([start, fail_result r], None)
         | Inr prefixes \<Rightarrow>
             let (outs, live) = sample_phase env r (concat (entries (re_set_order env (dom prefixes)) prefixes))
             in (start # outs, live))"

definition target_phase :: "run_env \<Rightarrow> task_runner \<Rightarrow> run_output list \<times> string list option" where
  "target_phase env r =
     (if rn_cidrs r \<noteq> [] then
        (let outs = [progress r ''resolve'' ''skipped'' 0 (len (rn_cidrs r)) 0,
                     progress r ''masscan'' ''0%'' 0 (len (rn_cidrs r)) 0];
             (more_outs, live) = run_masscan_cidrs env r (rn_cidrs r)
         in (outs @ more_outs, live))
      else if rn_ips r \<noteq> [] then
        ([progress r ''resolve'' ''skipped'' 0 (len (rn_ips r)) 0,
          progress r ''masscan'' ''skipped'' (len (rn_ips r)) (len (rn_ips r)) 0], Some (rn_ips r))
      else resolve_phase env r)"

section \<open>Phase 2: TLS checks\<close>

definition scan_config :: "task_runner \<Rightarrow> scanner_config" where
  "scan_config r =
     (let c1 = go_div (rn_max_rate r) 50;
          c2 = (if c1 < 50 then 50 else c1);
          c3 = (if rn_max_concurrency r > 0 \<and> c2 > rn_max_concurrency r then rn_max_concurrency r else c2)
      in scanner_defaults\<lparr>sc_concurrency := c3\<rparr>)"

definition scan_check :: "run_env \<Rightarrow> task_runner \<Rightarrow> string \<Rightarrow> int \<Rightarrow> scan_result" where
  "scan_check env r ip port = check_proxy (re_handshake env) (re_elapsed env ip port) ip port (scan_config r)"

definition tick_report :: "run_env \<Rightarrow> task_runner \<Rightarrow> string list \<Rightarrow> int \<times> int \<Rightarrow> run_output" where
  "tick_report env r live = (\<lambda>(scanned, hits).
     progress r ''cf-scanner'' (pct_str (re_percent env scanned (len live * len (rn_ports r))))
       scanned (len live * len (rn_ports r)) hits)"

definition scan_reports :: "run_env \<Rightarrow> task_runner \<Rightarrow> string list \<Rightarrow> scan_state \<Rightarrow> run_output list" where
  "scan_reports env r live s =
     progress r ''cf-scanner'' ''0%'' 0 (len live) 0 # map (tick_report env r live) (sn_ticks s)"

definition found_entry :: "scan_result \<Rightarrow> scan_entry" where
  "found_entry h = \<lparr>se_ip = sr_ip h, se_port = sr_port h, se_status = ''tls-ok'', se_colo = [], se_asn = [],
                    se_delay = sr_delay h\<rparr>"

definition cancelled_result :: "run_env \<Rightarrow> task_runner \<Rightarrow> run_output" where
  "cancelled_result env r =
     Result \<lparr>tr_task_id = rn_task_id r, tr_status = ''cancelled'', tr_hits = 0, tr_total_ips = 0,
             tr_duration = re_duration env, tr_results = []\<rparr>"

section \<open>Phase 3: verification\<close>

definition hit_target :: "scan_result \<Rightarrow> string" where
  "hit_target h = sr_ip h @ '':'' @ itoa (sr_port h)"

text \<open>\<open>hitMap\<close>, with the indices of the entries for the pointers to them: the last hit wins.\<close>

fun hit_map :: "nat \<Rightarrow> scan_result list \<Rightarrow> (string \<rightharpoonup> nat) \<Rightarrow> (string \<rightharpoonup> nat)" where
  "hit_map i [] m = m"
| "hit_map i (h # hs) m = hit_map (Suc i) hs (m(hit_target h \<mapsto> i))"

definition verify_concurrency :: "task_runner \<Rightarrow> int" where
  "verify_concurrency r =
     (let c1 = go_div (rn_max_rate r) 100; c2 = (if c1 < 8 then 8 else c1) in if c2 > 100 then 100 else c2)"

fun apply_batch :: "(string \<rightharpoonup> nat) \<Rightarrow> batch_result list \<Rightarrow> scan_entry list \<times> int \<Rightarrow> scan_entry list \<times> int" where
  "apply_batch m [] st = st"
| "apply_batch m (v # vs) (es, n) =
     (case m (br_ip v @ '':'' @ itoa (br_port v)) of
        None \<Rightarrow> apply_batch m vs (es, n)
      | Some i \<Rightarrow>
          if br_valid v then
            apply_batch m vs (es[i := (es ! i)\<lparr>se_colo := br_colo v, se_asn := br_asn v, se_status := ''verified''\<rparr>], n + 1)
          else apply_batch m vs (es[i := (es ! i)\<lparr>se_status := ''failed-verify''\<rparr>], n))"

text \<open>
  What \<open>VerifyBatch\<close> comes to: the batch of a final state of its goroutines, or nothing when the
  collector still waits there.
\<close>

definition batch_outcome ::
  "(string \<Rightarrow> int \<Rightarrow> check_result option) \<Rightarrow> int \<Rightarrow> string list \<Rightarrow> batch_result list option \<Rightarrow> bool" where
  "batch_outcome check concurrency targets result \<longleftrightarrow>
     (\<exists>s. reach (\<lambda>s. s = vb_init targets) (vb_step check concurrency) s \<and>
        (\<nexists>s'. vb_step check concurrency s s') \<and>
        result = (if vb_left s = 0 then Some (vb_batch s) else None))"

definition re_verify :: "run_env \<Rightarrow> string \<Rightarrow> int \<Rightarrow> check_result option" where
  "re_verify env = verified (re_check_get env) (re_check_decode env)"

text \<open>\<open>verifyHits\<close>: the report it sends and the entries it leaves, or \<open>None\<close> when it hangs.\<close>

definition verify_hits ::
  "task_runner \<Rightarrow> scan_result list \<Rightarrow> batch_result list \<Rightarrow> run_output list \<times> scan_entry list" where
  "verify_hits r cfHits batch =
     (let (es, verified) = apply_batch (hit_map 0 cfHits Map.empty) batch (map found_entry cfHits, 0)
      in ([progress r ''verify'' ''100%'' verified (len cfHits) verified], es))"

section \<open>The whole run\<close>

definition completed_result :: "run_env \<Rightarrow> task_runner \<Rightarrow> scan_state \<Rightarrow> scan_entry list \<Rightarrow> run_output" where
  "completed_result env r s es =
     Result \<lparr>tr_task_id = rn_task_id r, tr_status = ''completed'', tr_hits = sn_hits s, tr_total_ips = sn_scanned s,
             tr_duration = re_duration env, tr_results = es\<rparr>"

text \<open>
  \<open>scanned_to env r live b s\<close>: phase 2 on the hosts \<open>live\<close> can end in \<open>s\<close>; \<open>b\<close> tells
  whether the task had been stopped before the phase began.
\<close>

definition scanned_to :: "run_env \<Rightarrow> task_runner \<Rightarrow> string list \<Rightarrow> bool \<Rightarrow> scan_state \<Rightarrow> bool" where
  "scanned_to env r live b s \<longleftrightarrow>
     reach (\<lambda>s. s = scan_init b live (rn_ports r))
       (scan_next (scan_check env r) (nat (sc_concurrency (scan_config r)))) s"

text \<open>
  \<open>run_task env r stopped outs\<close>: a run of \<open>r\<close> can send \<open>outs\<close> and then return or, if
  \<open>VerifyBatch\<close> hangs, wait forever. \<open>stopped\<close> tells whether \<open>Stop\<close> is called while it runs;
  at the last \<open>select\<close> the result may then be dropped.
\<close>

inductive run_task :: "run_env \<Rightarrow> task_runner \<Rightarrow> bool \<Rightarrow> run_output list \<Rightarrow> bool"
  for env :: run_env and r :: task_runner and stopped :: bool where
  run_no_targets: "target_phase env r = (outs, None) \<Longrightarrow> run_task env r stopped outs"
| run_cancelled: "target_phase env r = (outs, Some live) \<Longrightarrow> (b \<longrightarrow> stopped) \<Longrightarrow>
    scanned_to env r live b s \<Longrightarrow> sn_main s = ScanCancelled \<Longrightarrow> stopped \<Longrightarrow>
    run_task env r stopped (outs @ scan_reports env r live s @ [cancelled_result env r])"
| run_no_hits: "target_phase env r = (outs, Some live) \<Longrightarrow> (b \<longrightarrow> stopped) \<Longrightarrow>
    scanned_to env r live b s \<Longrightarrow> sn_main s = ScanDone \<Longrightarrow> (sn_stopped s \<longrightarrow> stopped) \<Longrightarrow> sn_cf_hits s = [] \<Longrightarrow>
    final = [completed_result env r s []] \<or> stopped \<and> final = [] \<Longrightarrow>
    run_task env r stopped (outs @ scan_reports env r live s @ final)"
| run_verified: "target_phase env r = (outs, Some live) \<Longrightarrow> (b \<longrightarrow> stopped) \<Longrightarrow>
    scanned_to env r live b s \<Longrightarrow> sn_main s = ScanDone \<Longrightarrow> (sn_stopped s \<longrightarrow> stopped) \<Longrightarrow> sn_cf_hits s \<noteq> [] \<Longrightarrow>
    batch_outcome (re_verify env) (verify_concurrency r) (map hit_target (sn_cf_hits s)) (Some batch) \<Longrightarrow>
    verify_hits r (sn_cf_hits s) batch = (more_outs, es) \<Longrightarrow>
    final = [completed_result env r s es] \<or> stopped \<and> final = [] \<Longrightarrow>
    run_task env r stopped
      (outs @ scan_reports env r live s @ progress r ''verify'' ''0%'' 0 (len (sn_cf_hits s)) (sn_hits s) #
       more_outs @ final)"
| run_hangs: "target_phase env r = (outs, Some live) \<Longrightarrow> (b \<longrightarrow> stopped) \<Longrightarrow>
    scanned_to env r live b s \<Longrightarrow> sn_main s = ScanDone \<Longrightarrow> (sn_stopped s \<longrightarrow> stopped) \<Longrightarrow> sn_cf_hits s \<noteq> [] \<Longrightarrow>
    batch_outcome (re_verify env) (verify_concurrency r) (map hit_target (sn_cf_hits s)) None \<Longrightarrow>
    run_task env r stopped
      (outs @ scan_reports env r live s @ [progress r ''verify'' ''0%'' 0 (len (sn_cf_hits s)) (sn_hits s)])"


section \<open>What is sent before the scan\<close>

fun results_of :: "run_output list \<Rightarrow> task_result list" where
  "results_of [] = []"
| "results_of (Progress _ # outs) = results_of outs"
| "results_of (Result t # outs) = t # results_of outs"

lemma results_of_append [simp]: "results_of (xs @ ys) = results_of xs @ results_of ys"
  by (induction xs rule: results_of.induct) simp_all

lemma results_of_progress [simp]: "results_of (progress r a b c d e # outs) = results_of outs"
  by (simp add: progress_def)

lemma results_of_scan_reports [simp]: "results_of (scan_reports env r live s) = []"
proof -
  have "results_of (map (tick_report env r live) ts) = []" for ts
    by (induction ts) (auto simp: tick_report_def)
  then show ?thesis by (simp add: scan_reports_def)
qed

definition failed_task :: "task_runner \<Rightarrow> task_result" where
  "failed_task r = \<lparr>tr_task_id = rn_task_id r, tr_status = ''failed'', tr_hits = 0, tr_total_ips = 0,
                    tr_duration = [], tr_results = []\<rparr>"

lemma results_of_fail [simp]: "results_of (fail_result r # outs) = failed_task r # results_of outs"
  by (simp add: fail_result_def failed_task_def)

lemma results_of_cancelled:
  "results_of [cancelled_result env r] = [\<lparr>tr_task_id = rn_task_id r, tr_status = ''cancelled'', tr_hits = 0,
     tr_total_ips = 0, tr_duration = re_duration env, tr_results = []\<rparr>]"
  by (simp add: cancelled_result_def)

text \<open>
  The case in which \<open>run\<close> returns without any result: CIDRs are to be scanned and masscan
  fails, other than by being absent, without having found anything.
\<close>

definition gives_up_silently :: "run_env \<Rightarrow> task_runner \<Rightarrow> bool" where
  "gives_up_silently env r \<longleftrightarrow> rn_cidrs r \<noteq> [] \<and>
     (\<exists>e. e \<noteq> NotFound \<and> Masscan.run (re_os env) (cidr_config r (rn_cidrs r)) = ([], Some e))"

lemma run_masscan_quiet: "results_of (fst (run_masscan env r ips)) = []"
  by (auto simp: run_masscan_def Let_def split: prod.split option.split)

lemma run_masscan_cidrs_results:
  assumes "run_masscan_cidrs env r cidrs = (outs, live)"
  shows "outs \<noteq> [] \<and> (live \<noteq> None \<longrightarrow> results_of outs = []) \<and>
    (live = None \<longrightarrow> (\<exists>e. snd (Masscan.run (re_os env) (cidr_config r cidrs)) = Some e \<and>
      (if e = NotFound then results_of outs = [failed_task r] \<and> last outs = fail_result r
       else results_of outs = [] \<and> fst (Masscan.run (re_os env) (cidr_config r cidrs)) = [])))"
proof -
  obtain results err where m: "Masscan.run (re_os env) (cidr_config r cidrs) = (results, err)" by fastforce
  note def = assms [unfolded run_masscan_cidrs_def Let_def m]
  consider "err = None" | "err = Some NotFound" | e where "err = Some e" "e \<noteq> NotFound" "results = []"
    | e where "err = Some e" "e \<noteq> NotFound" "results \<noteq> []" by blast
  then show ?thesis
    using def by cases (auto simp: m)
qed

lemma run_masscan_cidrs_silent:
  assumes "run_masscan_cidrs env r cidrs = (outs, live)" "e \<noteq> NotFound"
    "Masscan.run (re_os env) (cidr_config r cidrs) = ([], Some e)"
  shows "live = None"
  using assms by (simp add: run_masscan_cidrs_def Let_def)

lemma sample_phase_results:
  assumes "sample_phase env r cidrs = (outs, live)"
  shows "outs \<noteq> [] \<and> (live \<noteq> None \<longrightarrow> results_of outs = []) \<and>
    (live = None \<longrightarrow> results_of outs = [failed_task r] \<and> last outs = fail_result r)"
proof -
  obtain g where g: "g = re_set_order env (expand_cidr (re_rand env) (re_parse6 env) (re_format6 env) cidrs
      (ip_sample_size r))" by blast
  obtain more hosts where m: "run_masscan env r g = (more, hosts)" by fastforce
  then have more: "results_of more = []" using run_masscan_quiet [of env r g] by simp
  note def = assms [unfolded sample_phase_def Let_def, folded g]
  show ?thesis
  proof (cases "g = []")
    case True
    then show ?thesis using def by auto
  next
    case False
    then have "outs = progress r ''resolve'' ''100%'' (len g) (len cidrs) 0 # more" "live = Some hosts"
      using def m by simp_all
    then show ?thesis using more by simp
  qed
qed

lemma resolve_phase_results:
  assumes "resolve_phase env r = (outs, live)"
  shows "live \<noteq> None \<Longrightarrow> results_of outs = []"
    and "live = None \<Longrightarrow> results_of outs = [failed_task r] \<and> last outs = fail_result r"
  using assms
  by (auto simp: resolve_phase_def Let_def split: sum.splits prod.splits dest!: sample_phase_results)

lemma target_phase_results:
  assumes "target_phase env r = (outs, live)"
  shows "live \<noteq> None \<Longrightarrow> results_of outs = [] \<and> \<not> gives_up_silently env r"
    and "live = None \<Longrightarrow> if gives_up_silently env r then results_of outs = []
      else results_of outs = [failed_task r] \<and> last outs = fail_result r"
proof -
  have "(live \<noteq> None \<longrightarrow> results_of outs = [] \<and> \<not> gives_up_silently env r) \<and>
    (live = None \<longrightarrow> (if gives_up_silently env r then results_of outs = []
      else results_of outs = [failed_task r] \<and> last outs = fail_result r))"
  proof (cases "rn_cidrs r = []")
    case True
    then show ?thesis
      using assms resolve_phase_results [of env r outs live]
      by (auto simp: target_phase_def gives_up_silently_def split: if_splits)
  next
    case False
    obtain more where m: "run_masscan_cidrs env r (rn_cidrs r) = (more, live)"
      and outs: "outs = [progress r ''resolve'' ''skipped'' 0 (len (rn_cidrs r)) 0,
        progress r ''masscan'' ''0%'' 0 (len (rn_cidrs r)) 0] @ more"
      using assms False by (auto simp: target_phase_def Let_def split: prod.splits)
    then show ?thesis
      using run_masscan_cidrs_results [OF m] False run_masscan_cidrs_silent [OF m]
      by (cases "live = None") (auto simp: outs gives_up_silently_def prod_eq_iff split: if_splits)
  qed
  then show "live \<noteq> None \<Longrightarrow> results_of outs = [] \<and> \<not> gives_up_silently env r"
    "live = None \<Longrightarrow> if gives_up_silently env r then results_of outs = []
      else results_of outs = [failed_task r] \<and> last outs = fail_result r" by blast+
qed


section \<open>The scan of a run\<close>

lemma scan_concurrency_pos: "0 < nat (sc_concurrency (scan_config r))"
  by (auto simp: scan_config_def Let_def)

lemma scanned_to_inv:
  "scanned_to env r live b s \<Longrightarrow>
   scan_inv (scan_check env r) (nat (sc_concurrency (scan_config r))) (scan_jobs live (rn_ports r)) s"
  unfolding scanned_to_def by (rule scm.inv_reach)

lemma scan_check_fields [simp]: "sr_ip (scan_check env r ip port) = ip" "sr_port (scan_check env r ip port) = port"
  by (auto simp: scan_check_def check_proxy_def Let_def split: option.split)

lemma hits_of_run:
  assumes "scanned_to env r live b s" "\<not> sn_stopped s" "sn_main s = ScanDone"
  shows "sn_scanned s = int (length live * length (rn_ports r))" "sn_hits s = int (length (sn_cf_hits s))"
    and "mset (sn_cf_hits s) = mset (filter sr_is_cf (map (\<lambda>(ip, port). scan_check env r ip port) (List.product live (rn_ports r))))"
proof -
  have "scan_jobs live (rn_ports r) = List.product live (rn_ports r)" by (induction live) simp_all
  then show "sn_scanned s = int (length live * length (rn_ports r))" "sn_hits s = int (length (sn_cf_hits s))"
    "mset (sn_cf_hits s) = mset (filter sr_is_cf (map (\<lambda>(ip, port). scan_check env r ip port) (List.product live (rn_ports r))))"
    using accounted_done [OF scanned_to_inv [OF assms(1)] assms(2,3)]
    by (simp_all add: checked_def [abs_def] case_prod_unfold)
qed

section \<open>Verification of the hits\<close>

definition good_port :: "int \<Rightarrow> bool" where
  "good_port p \<longleftrightarrow> 0 \<le> p \<and> in_int64 p"

lemma hit_target_parses: "good_port (sr_port h) \<Longrightarrow> parse_target (hit_target h) = Some (sr_ip h, sr_port h)"
  using parse_target_fmt [of "sr_port h" "sr_ip h"] by (simp add: good_port_def hit_target_def fmt_d_def)

lemma hit_target_inj:
  assumes "good_port (sr_port h)" "good_port (sr_port h')" "hit_target h = hit_target h'"
  shows "sr_ip h = sr_ip h' \<and> sr_port h = sr_port h'"
  using hit_target_parses [OF assms(1)] hit_target_parses [OF assms(2)] assms(3) by simp

definition hit_job :: "scan_result \<Rightarrow> job" where
  "hit_job h = \<lparr>jb_target = hit_target h, jb_ip = sr_ip h, jb_port = sr_port h\<rparr>"

lemma jobs_of_hits:
  "\<forall>h \<in> set hs. good_port (sr_port h) \<Longrightarrow> List.map_filter (\<lambda>h. make_job (hit_target h)) hs = map hit_job hs"
  by (induction hs) (simp_all add: map_filter_def make_job_def hit_target_parses hit_job_def)

definition answer :: "(string \<Rightarrow> int \<Rightarrow> check_result option) \<Rightarrow> scan_result \<Rightarrow> batch_result option" where
  "answer check h = to_batch (hit_job h, check (sr_ip h) (sr_port h))"

lemma answer_Some:
  "answer check h = Some v \<Longrightarrow> \<exists>c. check (sr_ip h) (sr_port h) = Some c \<and> br_ip v = sr_ip h \<and>
     br_port v = sr_port h \<and> br_valid v \<and> br_colo v = cr_colo c \<and> br_asn v = cr_asn c"
  by (auto simp: answer_def to_batch_def hit_job_def)

lemma answer_None: "answer check h = None \<longleftrightarrow> check (sr_ip h) (sr_port h) = None"
  by (simp add: answer_def to_batch_def)

lemma map_filter_map: "List.map_filter f (map g xs) = List.map_filter (\<lambda>x. f (g x)) xs"
  by (induction xs) (simp_all add: map_filter_def)

lemma set_map_filter: "set (List.map_filter f xs) = {v. \<exists>x \<in> set xs. f x = Some v}"
  by (induction xs) (auto simp: map_filter_def split: option.split)

lemma batch_of_hits:
  assumes "batch_outcome check c (map hit_target hs) result" "\<forall>h \<in> set hs. good_port (sr_port h)"
  shows "\<exists>batch. result = Some batch \<and> mset batch = mset (List.map_filter (answer check) hs)"
proof -
  obtain s where s: "reach (\<lambda>s. s = vb_init (map hit_target hs)) (vb_step check c) s" "\<nexists>s'. vb_step check c s s'"
    and result: "result = (if vb_left s = 0 then Some (vb_batch s) else None)"
    using assms(1) by (auto simp: batch_outcome_def)
  have "vb_left s = 0"
    using vb_final(1) [OF s] assms(2) by (simp add: hit_target_parses filter_empty_conv)
  moreover have "(\<lambda>h. to_batch (hit_job h, check (jb_ip (hit_job h)) (jb_port (hit_job h)))) = answer check"
    by (simp add: answer_def [abs_def] hit_job_def)
  then have "mset (vb_batch s) = mset (List.map_filter (answer check) hs)"
    using vb_final(2) [OF s] unfolding map_filter_map jobs_of_hits [OF assms(2)] by simp
  ultimately show ?thesis using result by simp
qed

lemma batch_exists: "\<exists>result. batch_outcome check c targets result"
proof -
  let ?good = "reach (\<lambda>s. s = vb_init targets) (vb_step check c)"
  have start: "?good (vb_init targets)" by (rule reach_init) simp
  have "\<exists>s. ?good s \<and> (\<nexists>t. vb_step check c s t)"
    by (rule runs_to_end [of "vb_step check c" ?good, OF vb_terminates start reach_step])
  then obtain s where s: "?good s" "\<nexists>t. vb_step check c s t" by blast
  have "batch_outcome check c targets (if vb_left s = 0 then Some (vb_batch s) else None)"
    unfolding batch_outcome_def by (intro exI conjI) (rule s, rule s, rule refl)
  then show ?thesis by (rule exI)
qed

lemma hit_map_other: "t \<notin> hit_target ` set hs \<Longrightarrow> hit_map k hs m t = m t"
  by (induction hs arbitrary: k m) auto

lemma hit_map_nth:
  "distinct (map hit_target hs) \<Longrightarrow> i < length hs \<Longrightarrow> hit_map k hs m (hit_target (hs ! i)) = Some (k + i)"
proof (induction hs arbitrary: k i m)
  case (Cons h hs)
  then show ?case by (cases i) (auto simp: hit_map_other)
qed simp

text \<open>
  Writing a batch over the entries. Each message is the answer for one hit, so writing it is
  setting the entry of the hit to its verified form.
\<close>

definition verified_entry :: "(string \<Rightarrow> int \<Rightarrow> check_result option) \<Rightarrow> scan_result \<Rightarrow> scan_entry" where
  "verified_entry check h =
     (case check (sr_ip h) (sr_port h) of
        None \<Rightarrow> found_entry h
      | Some c \<Rightarrow> (found_entry h)\<lparr>se_colo := cr_colo c, se_asn := cr_asn c, se_status := ''verified''\<rparr>)"

lemma apply_batch_step:
  assumes "distinct (map hit_target hs)" "length es = length hs"
    and "\<forall>i < length hs. es ! i = found_entry (hs ! i) \<or> es ! i = verified_entry check (hs ! i)"
    and "j < length hs" "answer check (hs ! j) = Some v"
  shows "apply_batch (hit_map 0 hs Map.empty) (v # vs) (es, n) =
      apply_batch (hit_map 0 hs Map.empty) vs (es[j := verified_entry check (hs ! j)], n + 1)"
proof -
  obtain c where c: "check (sr_ip (hs ! j)) (sr_port (hs ! j)) = Some c"
    and v: "br_ip v = sr_ip (hs ! j)" "br_port v = sr_port (hs ! j)" "br_valid v" "br_colo v = cr_colo c"
      "br_asn v = cr_asn c"
    using answer_Some [OF assms(5)] by blast
  have "hit_map 0 hs Map.empty (br_ip v @ '':'' @ itoa (br_port v)) = Some j"
    using hit_map_nth [OF assms(1,4), of 0 Map.empty] v by (simp add: hit_target_def)
  moreover have "(es ! j)\<lparr>se_colo := br_colo v, se_asn := br_asn v, se_status := ''verified''\<rparr> =
      verified_entry check (hs ! j)"
    using assms(3,4) c v by (auto simp: verified_entry_def)
  ultimately show ?thesis using v(3) by simp
qed

lemma apply_batch_entries:
  assumes "\<forall>v \<in> set batch. \<exists>h \<in> set hs. answer check h = Some v"
    and "distinct (map hit_target hs)"
    and "length es = length hs" "\<forall>i < length hs. es ! i = found_entry (hs ! i) \<or> es ! i = verified_entry check (hs ! i)"
  shows "length (fst (apply_batch (hit_map 0 hs Map.empty) batch (es, n))) = length hs \<and>
    (\<forall>i < length hs. fst (apply_batch (hit_map 0 hs Map.empty) batch (es, n)) ! i =
       (if \<exists>v \<in> set batch. answer check (hs ! i) = Some v then verified_entry check (hs ! i) else es ! i))"
  using assms(1,3,4)
proof (induction batch arbitrary: es n)
  case (Cons v vs)
  obtain j where j: "j < length hs" "answer check (hs ! j) = Some v"
    using Cons.prems(1) by (metis in_set_conv_nth list.set_intros(1))
  let ?es = "es[j := verified_entry check (hs ! j)]"
  have only: "i = j" if "i < length hs" "answer check (hs ! i) = Some v" for i
  proof -
    have "hit_target (hs ! i) = hit_target (hs ! j)"
      using answer_Some [OF that(2)] answer_Some [OF j(2)] by (auto simp: hit_target_def)
    then show ?thesis
      using assms(2) that(1) j(1) nth_eq_iff_index_eq [of "map hit_target hs" i j] by simp
  qed
  have es: "\<forall>i < length hs. ?es ! i = found_entry (hs ! i) \<or> ?es ! i = verified_entry check (hs ! i)"
    using Cons.prems(2,3) j(1) by (auto simp: nth_list_update)
  have ih: "length (fst (apply_batch (hit_map 0 hs Map.empty) vs (?es, n + 1))) = length hs \<and>
    (\<forall>i < length hs. fst (apply_batch (hit_map 0 hs Map.empty) vs (?es, n + 1)) ! i =
       (if \<exists>v \<in> set vs. answer check (hs ! i) = Some v then verified_entry check (hs ! i) else ?es ! i))"
    using Cons.prems es by (intro Cons.IH) auto
  have "?es ! i = (if answer check (hs ! i) = Some v then verified_entry check (hs ! i) else es ! i)"
    if "i < length hs" for i
    using only [OF that] j that Cons.prems(2) by (auto simp: nth_list_update)
  then show ?case
    unfolding apply_batch_step [OF assms(2) Cons.prems(2,3) j] using ih by auto
qed auto

lemma verified_hits:
  assumes "mset batch = mset (List.map_filter (answer check) hs)" and "distinct (map hit_target hs)"
    and "verify_hits r hs batch = (outs, es)"
  shows "es = map (verified_entry check) hs \<and> results_of outs = []"
proof -
  have set: "set batch = {v. \<exists>h \<in> set hs. answer check h = Some v}"
    using mset_eq_setD [OF assms(1)] by (simp add: set_map_filter)
  have es: "es = fst (apply_batch (hit_map 0 hs Map.empty) batch (map found_entry hs, 0))"
    and outs: "results_of outs = []"
    using assms(3) by (auto simp: verify_hits_def split: prod.splits)
  have all: "length es = length hs \<and> (\<forall>i < length hs. es ! i =
      (if \<exists>v \<in> set batch. answer check (hs ! i) = Some v then verified_entry check (hs ! i)
       else map found_entry hs ! i))"
    unfolding es
  proof (rule apply_batch_entries)
    show "\<forall>v \<in> set batch. \<exists>h \<in> set hs. answer check h = Some v" using set by simp
  qed (use assms(2) in simp_all)
  have "es ! i = verified_entry check (hs ! i)" if "i < length hs" for i
  proof (cases "answer check (hs ! i)")
    case None
    then have "es ! i = map found_entry hs ! i" using all that by simp
    then show ?thesis using that None by (simp add: verified_entry_def answer_None)
  next
    case (Some v)
    have "hs ! i \<in> set hs" using that by simp
    then have "\<exists>v \<in> set batch. answer check (hs ! i) = Some v"
      using set Some by (intro bexI [of _ v]) auto
    then show ?thesis using all that by presburger
  qed
  then have "es = map (verified_entry check) hs"
    using all by (intro nth_equalityI) simp_all
  then show ?thesis using outs by (rule conjI)
qed


section \<open>Runs that are not stopped\<close>

lemma not_stopped_end:
  assumes "scanned_to env r live b s" "\<not> sn_stopped s" "sn_main s = ScanDone" "\<forall>p \<in> set (rn_ports r). good_port p"
  shows "\<forall>h \<in> set (sn_cf_hits s). good_port (sr_port h)"
    and "distinct live \<Longrightarrow> distinct (rn_ports r) \<Longrightarrow> distinct (map hit_target (sn_cf_hits s))"
proof -
  let ?all = "map (\<lambda>(ip, port). scan_check env r ip port) (List.product live (rn_ports r))"
  note m = hits_of_run(3) [OF assms(1-3)]
  have ports: "\<forall>h \<in> set ?all. good_port (sr_port h)" using assms(4) by auto
  then show "\<forall>h \<in> set (sn_cf_hits s). good_port (sr_port h)"
    using mset_eq_setD [OF m] by auto
  assume d: "distinct live" "distinct (rn_ports r)"
  have "distinct (map hit_target ?all)"
  proof -
    have "inj_on (hit_target \<circ> (\<lambda>(ip, port). scan_check env r ip port)) (set (List.product live (rn_ports r)))"
    proof (rule inj_onI, clarsimp)
      fix a b a' b'
      assume h: "b \<in> set (rn_ports r)" "b' \<in> set (rn_ports r)"
        "hit_target (scan_check env r a b) = hit_target (scan_check env r a' b')"
      show "a = a' \<and> b = b'"
        using hit_target_inj [OF _ _ h(3)] h(1,2) assms(4) by simp
    qed
    then show ?thesis
      using d by (simp add: distinct_map distinct_product)
  qed
  then have "distinct (map hit_target (filter sr_is_cf ?all))" by (rule distinct_map_filter)
  moreover have "mset (map hit_target (sn_cf_hits s)) = mset (map hit_target (filter sr_is_cf ?all))"
    by (simp only: mset_map m)
  ultimately show "distinct (map hit_target (sn_cf_hits s))" by (metis mset_eq_imp_distinct_iff)
qed

lemma run_unstopped_cases:
  assumes "run_task env r False outs" "target_phase env r = (before, Some live)" "\<forall>p \<in> set (rn_ports r). good_port p"
  obtains s es reports where "scanned_to env r live False s" "sn_main s = ScanDone" "\<not> sn_stopped s"
    "outs = before @ reports @ [completed_result env r s es]" "results_of reports = []"
    "distinct live \<Longrightarrow> distinct (rn_ports r) \<Longrightarrow> es = map (verified_entry (re_verify env)) (sn_cf_hits s)"
  using assms(1)
proof cases
  case (run_no_hits outs' live' b s final)
  then show ?thesis using assms(2) by (intro that [of s "scan_reports env r live s" "[]"]) auto
next
  case (run_verified outs' live' b s batch more_outs es final)
  then have s: "scanned_to env r live False s" "sn_main s = ScanDone" "\<not> sn_stopped s" and before: "outs' = before"
    using assms(2) by auto
  obtain batch' where "mset batch = mset (List.map_filter (answer (re_verify env)) (sn_cf_hits s))"
    using batch_of_hits [OF run_verified(8) not_stopped_end(1) [OF s(1,3,2) assms(3)]] by auto
  then have es: "es = map (verified_entry (re_verify env)) (sn_cf_hits s)"
    if "distinct live" "distinct (rn_ports r)"
    using verified_hits [OF _ not_stopped_end(2) [OF s(1,3,2) assms(3) that] run_verified(9)] by blast
  have "results_of more_outs = []" using run_verified(9) by (auto simp: verify_hits_def split: prod.splits)
  then show ?thesis
    using run_verified before s assms(2) es
    by (intro that [of s "scan_reports env r live s @ progress r ''verify'' ''0%'' 0 (len (sn_cf_hits s)) (sn_hits s) # more_outs" es]) auto
next
  case (run_hangs outs' live' b s)
  then have s: "scanned_to env r live False s" "sn_main s = ScanDone" "\<not> sn_stopped s" using assms(2) by auto
  then show ?thesis
    using batch_of_hits [OF run_hangs(8) not_stopped_end(1) [OF s(1,3,2) assms(3)]] by simp
qed (use assms(2) in auto)

lemma run_exists: "\<exists>outs. run_task env r False outs"
proof -
  obtain before live where t: "target_phase env r = (before, live)" by fastforce
  show ?thesis
  proof (cases live)
    case None
    then show ?thesis using run_no_targets t by blast
  next
    case (Some hosts)
    let ?c = "nat (sc_concurrency (scan_config r))"
    obtain s where s: "scanned_to env r hosts False s" "\<nexists>t. scan_step (scan_check env r) ?c s t" "\<not> sn_stopped s"
      unfolding scanned_to_def using scan_runs_to_end by blast
    have "scan_flags ?c s" using scanned_to_inv [OF s(1)] by (simp add: scan_inv_def)
    then have fin: "sn_main s = ScanDone" using scan_stuck(3) [OF _ s(2) scan_concurrency_pos s(3)] by blast
    obtain result where res: "batch_outcome (re_verify env) (verify_concurrency r) (map hit_target (sn_cf_hits s)) result"
      using batch_exists by blast
    note t = t [unfolded Some]
    show ?thesis
    proof (cases "sn_cf_hits s = []")
      case True
      then show ?thesis using run_no_hits [OF t _ s(1) fin] s(3) by blast
    next
      case False
      show ?thesis
      proof (cases result)
        case None
        then show ?thesis using run_hangs [OF t _ s(1) fin _ False] res s(3) by blast
      next
        case (Some batch)
        obtain more es where "verify_hits r (sn_cf_hits s) batch = (more, es)" by fastforce
        then show ?thesis using run_verified [OF t _ s(1) fin _ False] res Some s(3) by blast
      qed
    qed
  qed
qed

section \<open>Properties\<close>

text \<open>
  C11. A task that is not stopped can always run to its end, and then it has sent exactly one
  result, last and with its own task ID, that says completed or failed. The only exception:
  CIDRs are to be scanned, masscan is installed but fails, and it has found nothing; then the
  runner returns without a result and the task stays assigned for ever.
\<close>

theorem run_reports_once:
  assumes "\<forall>p \<in> set (rn_ports r). 0 \<le> p \<and> p < 2 ^ 63"
  shows "(\<exists>outs. run_task env r False outs) \<and>
    (\<forall>outs. run_task env r False outs \<longrightarrow>
       (if gives_up_silently env r then results_of outs = []
        else \<exists>t. results_of outs = [t] \<and> last outs = Result t \<and> tr_task_id t = rn_task_id r \<and>
               tr_status t \<in> {''completed'', ''failed''}))"
proof (intro conjI allI impI run_exists)
  fix outs assume run: "run_task env r False outs"
  have ports: "\<forall>p \<in> set (rn_ports r). good_port p" using assms by (auto simp: good_port_def in_int64_def)
  obtain before live where t: "target_phase env r = (before, live)" by fastforce
  show "if gives_up_silently env r then results_of outs = []
        else \<exists>t. results_of outs = [t] \<and> last outs = Result t \<and> tr_task_id t = rn_task_id r \<and>
               tr_status t \<in> {''completed'', ''failed''}"
  proof (cases live)
    case None
    with t have "target_phase env r = (before, None)" by simp
    with run have "outs = before" by (cases rule: run_task.cases) auto
    then show ?thesis
      using target_phase_results(2) [OF t None] by (simp add: fail_result_def failed_task_def split: if_splits)
  next
    case (Some hosts)
    obtain s es reports where "outs = before @ reports @ [completed_result env r s es]" "results_of reports = []"
      using run_unstopped_cases [OF run t [unfolded Some] ports] by blast
    then show ?thesis
      using target_phase_results(1) [OF t] Some by (simp add: completed_result_def)
  qed
qed


text \<open>
  A task with one given address and port: the environment's handshake succeeds with a
  Cloudflare certificate, and the service does not know the address.
\<close>

definition demo_run_env :: run_env where
  "demo_run_env =
     \<lparr>re_get = (\<lambda>_. None), re_decode = (\<lambda>_. None), re_asn_order = id, re_rand = (\<lambda>_ _. 0), re_parse6 = (\<lambda>_. None),
      re_format6 = (\<lambda>_. []), re_set_order = (\<lambda>_. []),
      re_os = \<lparr>look_path = True, temp_dir = None, write_ok = True, start_ok = True, exec_masscan = (\<lambda>_ _. (False, None))\<rparr>,
      re_handshake = (\<lambda>_ _ _. Some [\<lparr>cert_common_name = ''cloudflare.com'', cert_dns_names = []\<rparr>]),
      re_elapsed = (\<lambda>_ _. 0), re_check_get = (\<lambda>_. None), re_check_decode = (\<lambda>_. None),
      re_percent = (\<lambda>_ _. 0), re_duration = ''1s''\<rparr>"

definition demo_runner :: task_runner where
  "demo_runner = set_ips [''1.1.1.1''] (new_task_runner ''t1'' [] [443] 1000)"

lemmas demo_run_defs = demo_run_env_def demo_runner_def set_ips_def new_task_runner_def

theorem run_reports_once_witness:
  "\<exists>outs t. run_task demo_run_env demo_runner False outs \<and> results_of outs = [t] \<and>
     (\<forall>outs. run_task demo_run_env (demo_runner\<lparr>rn_cidrs := [''1.0.0.0/24'']\<rparr>) False outs \<longrightarrow> results_of outs = [])"
proof -
  let ?cidrs = "demo_runner\<lparr>rn_cidrs := [''1.0.0.0/24'']\<rparr>"
  have ports: "\<forall>p \<in> set (rn_ports demo_runner). 0 \<le> p \<and> p < 2 ^ 63" "\<forall>p \<in> set (rn_ports ?cidrs). 0 \<le> p \<and> p < 2 ^ 63"
    by (simp_all add: demo_run_defs)
  have "\<not> gives_up_silently demo_run_env demo_runner" by (simp add: gives_up_silently_def demo_run_defs)
  moreover have "gives_up_silently demo_run_env ?cidrs"
    by (simp add: gives_up_silently_def demo_run_defs Masscan.run_def)
  ultimately show ?thesis
    using run_reports_once [OF ports(1), of demo_run_env] run_reports_once [OF ports(2), of demo_run_env] by metis
qed


end
