(* ===== verification/Client.thy ===== *)
theory Client
  imports Runner
begin

text \<open>
  The worker's side of its connection (\<open>internal/worker/client.go\<close>, with the default addresses
  of \<open>test_ips.go\<close>): hardware detection and limits, registration, the messages of the master, the
  report and heartbeat loops, and the loops with the runners as a step relation. JSON encoding
  and decoding are parameters. A run of a loop body between two selects is one step;
  \<open>cl_sent\<close> lists the requests handed to \<open>WriteJSON\<close> while the connection was open.
\<close>

section \<open>Hardware and limits\<close>

fun mem_total :: "string list \<Rightarrow> int" where
  "mem_total [] = 0"
| "mem_total (line # lines) =
     (if has_prefix line ''MemTotal:'' then
        (let fields = go_fields line
         in if length fields \<ge> 2 then (case atoi (fields ! 1) of None \<Rightarrow> 0 | Some kb \<Rightarrow> go_div kb 1024) else 0)
      else mem_total lines)"

text \<open>\<open>meminfo\<close> is the contents of \<open>/proc/meminfo\<close>, if it can be read.\<close>

definition detect_hardware :: "int \<Rightarrow> string option \<Rightarrow> int \<times> int" where
  "detect_hardware ncpu meminfo =
     (let memoryMB = (case meminfo of None \<Rightarrow> 0 | Some data \<Rightarrow> mem_total (split_on (CHR 0x0A) data))
      in (ncpu, if memoryMB \<le> 0 then 512 else memoryMB))"

definition calculate_limits :: "int \<Rightarrow> int \<Rightarrow> int \<times> int \<times> int" where
  "calculate_limits cpuCount memoryMB =
     (let c1 = cpuCount * 50; c2 = (if c1 < 50 then 50 else c1); c3 = (if c2 > 200 then 200 else c2)
      in (1, c3, 14000))"

section \<open>The client\<close>

record client =
  cl_master_url :: string
  cl_name :: string
  cl_uuid :: uuid
  cl_capabilities :: "worker_capabilities option"
  cl_open :: bool
  cl_next_id :: int
  cl_stopped :: bool
  cl_tasks :: "string \<rightharpoonup> task_runner"
  cl_sent :: "request list"

definition new_client :: "string \<Rightarrow> string \<Rightarrow> uuid \<Rightarrow> client" where
  "new_client masterURL name u =
     \<lparr>cl_master_url = masterURL, cl_name = name, cl_uuid = u, cl_capabilities = None, cl_open = False,
      cl_next_id = 0, cl_stopped = False, cl_tasks = Map.empty, cl_sent = []\<rparr>"

definition running_tasks :: "client \<Rightarrow> int" where
  "running_tasks c = int (card (dom (cl_tasks c)))"

definition can_accept_task :: "client \<Rightarrow> bool" where
  "can_accept_task c =
     (case cl_capabilities c of None \<Rightarrow> True | Some caps \<Rightarrow> running_tasks c < max_tasks caps)"

record client_env =
  encode_register :: "register_params \<Rightarrow> raw option"
  encode_pull :: "pull_params \<Rightarrow> raw option"
  encode_report :: "report_params \<Rightarrow> raw option"
  encode_result :: "task_result \<Rightarrow> raw option"
  encode_heartbeat :: "heartbeat_params \<Rightarrow> raw option"
  read_response :: "raw \<Rightarrow> response option"
  read_request :: "raw \<Rightarrow> request option"
  read_registered :: "raw \<Rightarrow> register_result"
  read_assign :: "raw option \<Rightarrow> task_assign_params option"
  read_cancel :: "raw option \<Rightarrow> task_cancel_params option"

section \<open>Requests\<close>

text \<open>\<open>req, _ := NewRequest(...)\<close>: on an error the zero request is sent.\<close>

definition request_of :: "('a \<Rightarrow> raw option) \<Rightarrow> string \<Rightarrow> 'a option \<Rightarrow> int \<Rightarrow> request" where
  "request_of marshal method params n =
     (case new_request marshal method params n of
        None \<Rightarrow> \<lparr>rq_jsonrpc = [], rq_method = [], rq_params = None, rq_id = 0\<rparr>
      | Some req \<Rightarrow> req)"

definition call :: "('a \<Rightarrow> raw option) \<Rightarrow> string \<Rightarrow> 'a option \<Rightarrow> client \<Rightarrow> client" where
  "call marshal method params c =
     c\<lparr>cl_next_id := cl_next_id c + 1,
       cl_sent := (if cl_open c then cl_sent c @ [request_of marshal method params (cl_next_id c)] else cl_sent c)\<rparr>"

definition pull :: "client_env \<Rightarrow> client \<Rightarrow> client" where
  "pull env = call (encode_pull env) MethodWorkerPull (Some \<lparr>pull_status = ''idle''\<rparr>)"

definition send_report :: "client_env \<Rightarrow> report_params \<Rightarrow> client \<Rightarrow> client" where
  "send_report env rp = call (encode_report env) MethodWorkerReport (Some rp)"

definition send_result :: "client_env \<Rightarrow> task_result \<Rightarrow> client \<Rightarrow> client" where
  "send_result env tr = call (encode_result env) MethodWorkerResult (Some tr)"

text \<open>
  \<open>register\<close>; \<open>resp\<close> is what \<open>ReadJSON\<close> leaves of the first frame it reads. An error answer is
  only logged: the caller goes on.
\<close>

definition register_client :: "client_env \<Rightarrow> response \<Rightarrow> client \<Rightarrow> client" where
  "register_client env resp c =
     (let c1 = call (encode_register env) MethodWorkerRegister
                 (Some \<lparr>reg_uuid = cl_uuid c, reg_name = cl_name c, reg_capabilities = cl_capabilities c\<rparr>) c
      in if rs_error resp \<noteq> None then c1
         else let result = (case rs_result resp of None \<Rightarrow> \<lparr>rr_uuid = [], rr_token = []\<rparr>
                                                 | Some b \<Rightarrow> read_registered env b)
              in if rr_uuid result \<noteq> [] then c1\<lparr>cl_uuid := rr_uuid result\<rparr> else c1)"

text \<open>\<open>Run\<close>: whether it succeeds (the loops run then), and the client.\<close>

definition client_run :: "client_env \<Rightarrow> int \<Rightarrow> string option \<Rightarrow> bool \<Rightarrow> response \<Rightarrow> client \<Rightarrow> bool \<times> client" where
  "client_run env ncpu meminfo dialled resp c =
     (let (cpus, memory) = detect_hardware ncpu meminfo;
          (tasks, concurrent, rate) = calculate_limits cpus memory;
          c1 = c\<lparr>cl_capabilities := Some \<lparr>cpu_count = cpus, memory_mb = memory, max_tasks = tasks,
                    max_concurrent = concurrent, max_rate = rate\<rparr>\<rparr>
      in if \<not> dialled then (False, c1)
         else (True, pull env (register_client env resp (c1\<lparr>cl_open := True\<rparr>))))"

text \<open>
  \<open>Stop\<close> acts once. Stopping the runners visits the map in some order; if one of them has been
  stopped before, closing its channel again panics and the rest is not done.
\<close>

fun stop_runners :: "string list \<Rightarrow> (string \<rightharpoonup> task_runner) \<Rightarrow> (string \<rightharpoonup> task_runner) outcome" where
  "stop_runners [] tasks = Returns tasks"
| "stop_runners (k # ks) tasks =
     (case tasks k of
        None \<Rightarrow> stop_runners ks tasks
      | Some r \<Rightarrow> (case runner_stop r of
                     Returns r' \<Rightarrow> stop_runners ks (tasks(k \<mapsto> r'))
                   | Panics r' \<Rightarrow> Panics tasks))"

definition client_stop :: "string list \<Rightarrow> client \<Rightarrow> client outcome" where
  "client_stop ks c =
     (if cl_stopped c then Returns c
      else let c1 = c\<lparr>cl_stopped := True\<rparr>
           in case stop_runners ks (cl_tasks c) of
                Returns tasks \<Rightarrow> Returns (c1\<lparr>cl_tasks := tasks, cl_open := False\<rparr>)
              | Panics tasks \<Rightarrow> Panics (c1\<lparr>cl_tasks := tasks\<rparr>))"

section \<open>Loops\<close>

text \<open>A tick of the heartbeat loop; \<open>ks\<close> is the order in which the tasks are visited.\<close>

definition heartbeat_tick :: "client_env \<Rightarrow> float64 \<Rightarrow> float64 \<Rightarrow> float64 \<Rightarrow> string list \<Rightarrow> client \<Rightarrow> client" where
  "heartbeat_tick env cpu mem disk ks c =
     (let (task, phase) = (case entries ks (cl_tasks c) of [] \<Rightarrow> ([], []) | r # _ \<Rightarrow> (rn_task_id r, rn_phase r))
      in call (encode_heartbeat env) MethodWorkerHeartbeat
           (Some \<lparr>hb_cpu_percent = cpu, hb_mem_percent = mem, hb_disk_percent = disk, hb_current_task = task,
                  hb_phase = phase, hb_progress = fmt_d (running_tasks c) @ '' running''\<rparr>) c)"

text \<open>The report loop's visit to the runner under \<open>k\<close>: at most one report, at most one result.\<close>

definition drain_report :: "client_env \<Rightarrow> string \<Rightarrow> client \<Rightarrow> client" where
  "drain_report env k c =
     (case cl_tasks c k of
        None \<Rightarrow> c
      | Some r \<Rightarrow> (case rn_progress r of
                     [] \<Rightarrow> c
                   | p # ps \<Rightarrow> send_report env p (c\<lparr>cl_tasks := (cl_tasks c)(k \<mapsto> r\<lparr>rn_progress := ps\<rparr>)\<rparr>)))"

definition drain_result :: "client_env \<Rightarrow> string \<Rightarrow> client \<Rightarrow> client" where
  "drain_result env k c =
     (case cl_tasks c k of
        None \<Rightarrow> c
      | Some r \<Rightarrow>
          (case rn_result r of
             [] \<Rightarrow> c
           | t # ts \<Rightarrow>
               let c1 = send_result env t (c\<lparr>cl_tasks := (cl_tasks c)(k \<mapsto> r\<lparr>rn_result := ts\<rparr>)\<rparr>)
               in pull env (c1\<lparr>cl_tasks := (cl_tasks c1)(tr_task_id t := None)\<rparr>)))"

definition report_pass :: "client_env \<Rightarrow> string \<Rightarrow> client \<Rightarrow> client" where
  "report_pass env k c = drain_result env k (drain_report env k c)"

section \<open>Messages of the master\<close>

definition default_test_ips :: "string list" where
  "default_test_ips =
     [''188.95.70.211'', ''45.80.188.138'', ''92.118.190.93'', ''109.94.170.104'', ''109.94.170.148'',
      ''104.16.0.1'', ''104.16.1.1'', ''104.16.2.1'', ''104.16.3.1'', ''104.16.4.1'']"

definition runner_for :: "task_assign_params \<Rightarrow> int \<Rightarrow> int \<Rightarrow> task_runner" where
  "runner_for p rate concurrency =
     (let r1 = (new_task_runner (ta_task_id p) (ta_asns p) (ta_ports p) rate)
                 \<lparr>rn_cidrs := ta_cidrs p, rn_max_concurrency := concurrency, rn_phase := ''assigned''\<rparr>;
          r2 = (if ta_shard_total p > 1 then set_shard (ta_shard_index p) (ta_shard_total p) r1 else r1)
      in if ta_ips p \<noteq> [] then set_ips (ta_ips p) r2
         else if ta_asns p = [] \<or> ta_asns p = [[]] then set_ips default_test_ips r2 else r2)"

definition rejection :: "string \<Rightarrow> task_result" where
  "rejection k = \<lparr>tr_task_id = k, tr_status = ''failed'', tr_hits = 0, tr_total_ips = 0, tr_duration = ''0s'',
                  tr_results = []\<rparr>"

text \<open>\<open>c.capabilities.MaxConcurrent\<close> is a nil dereference when there are no capabilities.\<close>

definition handle_assign :: "client_env \<Rightarrow> task_assign_params \<Rightarrow> client \<Rightarrow> client outcome" where
  "handle_assign env p c =
     (let rate = (case cl_capabilities c of
                    None \<Rightarrow> ta_max_rate p
                  | Some caps \<Rightarrow> if ta_max_rate p > max_rate caps then max_rate caps else ta_max_rate p)
      in case cl_capabilities c of
           None \<Rightarrow> Panics c
         | Some caps \<Rightarrow>
             if running_tasks c \<ge> max_tasks caps
             then Returns (send_result env (rejection (ta_task_id p)) c)
             else Returns (c\<lparr>cl_tasks := (cl_tasks c)(ta_task_id p \<mapsto> runner_for p rate (max_concurrent caps))\<rparr>))"

text \<open>The task stopped by \<open>handle_cancel\<close> is looked up under the parameters' task ID.\<close>

definition stop_task :: "string \<Rightarrow> (task_runner \<Rightarrow> string) \<Rightarrow> client \<Rightarrow> client outcome" where
  "stop_task k key c =
     (case cl_tasks c k of
        None \<Rightarrow> Returns c
      | Some r \<Rightarrow> (case runner_stop r of
                     Returns r' \<Rightarrow> Returns (c\<lparr>cl_tasks := (cl_tasks c)(key r := None)\<rparr>)
                   | Panics r' \<Rightarrow> Panics c))"

definition handle_cancel :: "client_env \<Rightarrow> request \<Rightarrow> client \<Rightarrow> client outcome" where
  "handle_cancel env req c =
     (case read_cancel env (rq_params req) of
        Some p \<Rightarrow> stop_task (tc_task_id p) (\<lambda>_. tc_task_id p) c
      | None \<Rightarrow> stop_task (rq_method req) rn_task_id c)"

definition handle_master_message :: "client_env \<Rightarrow> request \<Rightarrow> client \<Rightarrow> client outcome" where
  "handle_master_message env req c =
     (if rq_method req = MethodMasterPing then
        Returns (call (\<lambda>_ :: unit. None) MethodWorkerPong None c)
      else if rq_method req = MethodMasterTaskAssign then
        (case read_assign env (rq_params req) of None \<Rightarrow> Returns c | Some p \<Rightarrow> handle_assign env p c)
      else if rq_method req = MethodMasterTaskCancel then handle_cancel env req c
      else Returns c)"

text \<open>
  The read loop's treatment of a frame: a response (with a result or an error) is skipped, a
  request with a method is handled, anything else is skipped.
\<close>

definition is_answer :: "response option \<Rightarrow> bool" where
  "is_answer r = (case r of None \<Rightarrow> False | Some resp \<Rightarrow>
     rs_jsonrpc resp = ''2.0'' \<and> (rs_result resp \<noteq> None \<or> rs_error resp \<noteq> None))"

definition client_receive :: "client_env \<Rightarrow> raw \<Rightarrow> client \<Rightarrow> client outcome" where
  "client_receive env bytes c =
     (if is_answer (read_response env bytes) then Returns c
      else case read_request env bytes of
             None \<Rightarrow> Returns c
           | Some req \<Rightarrow> if rq_method req = [] then Returns c else handle_master_message env req c)"

section \<open>The loops together\<close>

text \<open>
  A message may be handled after \<open>Stop\<close>: the read loop looks at the stop channel only before it
  reads. A runner emits a report or result of its own task.
\<close>

fun output_task :: "run_output \<Rightarrow> string" where
  "output_task (Progress p) = rep_task_id p"
| "output_task (Result t) = tr_task_id t"

inductive client_step :: "client_env \<Rightarrow> client \<Rightarrow> client outcome \<Rightarrow> bool" for env :: client_env where
  cl_message: "client_step env c (client_receive env bytes c)"
| cl_stop: "map_order ks (cl_tasks c) \<Longrightarrow> client_step env c (client_stop ks c)"
| cl_heartbeat: "client_step env c (Returns (heartbeat_tick env cpu mem disk ks c))"
| cl_report: "client_step env c (Returns (report_pass env k c))"
| cl_emit: "cl_tasks c k = Some r \<Longrightarrow> output_task out = rn_task_id r \<Longrightarrow> emit out r = Some r' \<Longrightarrow>
    client_step env c (Returns (c\<lparr>cl_tasks := (cl_tasks c)(k \<mapsto> r')\<rparr>))"

inductive client_next :: "client_env \<Rightarrow> client outcome \<Rightarrow> client outcome \<Rightarrow> bool" for env :: client_env where
  client_goes_on: "client_step env c out \<Longrightarrow> client_next env (Returns c) out"

definition client_initial :: "client_env \<Rightarrow> client outcome \<Rightarrow> bool" where
  "client_initial env out \<longleftrightarrow> (\<exists>url name u ncpu meminfo resp.
     out = Returns (snd (client_run env ncpu meminfo True resp (new_client url name u))))"


section \<open>Invariant\<close>

definition runner_ok :: "worker_capabilities \<Rightarrow> bool \<Rightarrow> string \<Rightarrow> task_runner \<Rightarrow> bool" where
  "runner_ok caps stopped k r \<longleftrightarrow> rn_task_id r = k \<and> rn_max_rate r \<le> 14000 \<and> rn_max_concurrency r = max_concurrent caps \<and>
     length (rn_progress r) \<le> 10 \<and> length (rn_result r) \<le> 1 \<and>
     (\<forall>p \<in> set (rn_progress r). rep_task_id p = k) \<and> (\<forall>t \<in> set (rn_result r). tr_task_id t = k) \<and>
     (rn_stopped r \<longrightarrow> stopped)"

definition limits_ok :: "worker_capabilities \<Rightarrow> bool" where
  "limits_ok caps \<longleftrightarrow> max_tasks caps = 1 \<and> 50 \<le> max_concurrent caps \<and> max_concurrent caps \<le> 200 \<and> max_rate caps = 14000"

definition one_task :: "('k \<rightharpoonup> 'v) \<Rightarrow> bool" where
  "one_task m \<longleftrightarrow> finite (dom m) \<and> card (dom m) \<le> 1"

definition client_ok :: "client \<Rightarrow> bool" where
  "client_ok c \<longleftrightarrow> (\<exists>caps. cl_capabilities c = Some caps \<and> limits_ok caps \<and> one_task (cl_tasks c) \<and>
     (\<forall>k r. cl_tasks c k = Some r \<longrightarrow> runner_ok caps (cl_stopped c) k r))"

definition client_inv :: "client outcome \<Rightarrow> bool" where
  "client_inv out \<longleftrightarrow> (case out of Returns c \<Rightarrow> client_ok c | Panics c \<Rightarrow> cl_stopped c)"

lemma one_task_simps:
  "one_task Map.empty" "one_task m \<Longrightarrow> one_task (m(k := None))"
  "one_task m \<Longrightarrow> k \<in> dom m \<Longrightarrow> one_task (m(k \<mapsto> v))"
  "finite (dom m) \<Longrightarrow> card (dom m) = 0 \<Longrightarrow> one_task (m(k \<mapsto> v))"
  using card_Diff1_le [of "dom m" k] by (auto simp: one_task_def insert_absorb)

lemma one_task_empty [simp]: "one_task (\<lambda>_. None)"
  by (simp add: one_task_def)

lemma calculate_limits_ok:
  "calculate_limits cpus memory = (t, n, r) \<Longrightarrow> t = 1 \<and> 50 \<le> n \<and> n \<le> 200 \<and> r = 14000"
  by (auto simp: calculate_limits_def Let_def split: if_splits)

lemma call_fields [simp]:
  "cl_capabilities (call m x p c) = cl_capabilities c" "cl_tasks (call m x p c) = cl_tasks c"
  "cl_stopped (call m x p c) = cl_stopped c" "cl_open (call m x p c) = cl_open c" "cl_uuid (call m x p c) = cl_uuid c"
  by (simp_all add: call_def)

lemma client_ok_call [simp]: "client_ok (call m x p c) = client_ok c"
  by (simp add: client_ok_def)

lemma client_ok_uuid [simp]: "client_ok (c\<lparr>cl_uuid := u\<rparr>) = client_ok c"
  by (simp add: client_ok_def)

lemma client_ok_initial: "client_initial env out \<Longrightarrow> client_inv out"
proof -
  assume "client_initial env out"
  then obtain url name u ncpu meminfo resp where
    out: "out = Returns (snd (client_run env ncpu meminfo True resp (new_client url name u)))"
    by (auto simp: client_initial_def)
  obtain cpus memory where hw: "detect_hardware ncpu meminfo = (cpus, memory)" by fastforce
  obtain t n r where lim: "calculate_limits cpus memory = (t, n, r)" by (cases "calculate_limits cpus memory") auto
  show ?thesis
    using calculate_limits_ok [OF lim] one_task_empty
    unfolding out client_run_def hw Let_def
    by (simp add: lim client_inv_def pull_def register_client_def new_client_def Let_def client_ok_def limits_ok_def)
qed

text \<open>Replacing the runner of a task, and forgetting a task.\<close>

lemma client_ok_update:
  "client_ok c \<Longrightarrow> cl_tasks c k = Some r0 \<Longrightarrow>
   (\<And>caps. runner_ok caps (cl_stopped c) k r0 \<Longrightarrow> runner_ok caps (cl_stopped c) k r) \<Longrightarrow>
   client_ok (c\<lparr>cl_tasks := (cl_tasks c)(k \<mapsto> r)\<rparr>)"
  unfolding client_ok_def by (auto intro!: one_task_simps(3))

lemma client_ok_forget: "client_ok c \<Longrightarrow> client_ok (c\<lparr>cl_tasks := (cl_tasks c)(k := None)\<rparr>)"
  unfolding client_ok_def by (auto intro!: one_task_simps(2))

lemma client_ok_drain_report: "client_ok c \<Longrightarrow> client_ok (drain_report env k c)"
  unfolding drain_report_def
  by (auto split: option.split list.split simp: send_report_def runner_ok_def intro!: client_ok_update)

lemma client_ok_drain_result: "client_ok c \<Longrightarrow> client_ok (drain_result env k c)"
proof -
  assume ok: "client_ok c"
  have step: "client_ok (pull env (c1\<lparr>cl_tasks := (cl_tasks c1)(k' := None)\<rparr>))"
    if "c1 = send_result env t (c\<lparr>cl_tasks := (cl_tasks c)(k \<mapsto> r\<lparr>rn_result := ts\<rparr>)\<rparr>)"
      "cl_tasks c k = Some r" "rn_result r = t # ts" for c1 r t ts k'
  proof -
    have "client_ok c1"
      unfolding that(1) send_result_def using ok that(2,3)
      by (auto simp: runner_ok_def intro!: client_ok_update)
    then show ?thesis by (simp add: pull_def client_ok_forget)
  qed
  then show ?thesis
    using ok unfolding drain_result_def Let_def by (auto split: option.split list.split)
qed

lemma client_ok_report_pass: "client_ok c \<Longrightarrow> client_ok (report_pass env k c)"
  unfolding report_pass_def by (intro client_ok_drain_result client_ok_drain_report)

lemma emit_ok: "emit out r = Some r' \<Longrightarrow> output_task out = rn_task_id r \<Longrightarrow> runner_ok caps b k r \<Longrightarrow> runner_ok caps b k r'"
  by (cases out) (auto simp: emit_def runner_ok_def split: if_splits)

lemma runner_for_ok:
  "rate \<le> 14000 \<Longrightarrow> runner_ok caps b (ta_task_id p) (runner_for p rate (max_concurrent caps))"
  by (auto simp: runner_ok_def runner_for_def Let_def set_ips_def set_shard_def new_task_runner_def)

lemma handle_assign_ok: "client_ok c \<Longrightarrow> \<exists>c'. handle_assign env p c = Returns c' \<and> client_ok c'"
proof -
  assume ok: "client_ok c"
  then obtain caps where caps: "cl_capabilities c = Some caps" "limits_ok caps" "one_task (cl_tasks c)"
    and rs: "\<And>k r. cl_tasks c k = Some r \<Longrightarrow> runner_ok caps (cl_stopped c) k r"
    by (auto simp: client_ok_def)
  show ?thesis
  proof (cases "running_tasks c \<ge> max_tasks caps")
    case True
    then show ?thesis using ok caps by (simp add: handle_assign_def Let_def send_result_def)
  next
    case False
    define rate where "rate = (if ta_max_rate p > max_rate caps then max_rate caps else ta_max_rate p)"
    have rate: "rate \<le> 14000" using caps(2) by (simp add: rate_def limits_ok_def)
    have "one_task ((cl_tasks c)(ta_task_id p \<mapsto> v))" for v
    proof (rule one_task_simps(4))
      show "finite (dom (cl_tasks c))" using caps(3) by (simp add: one_task_def)
      have "int (card (dom (cl_tasks c))) < 1"
        using False caps(2) by (simp add: running_tasks_def limits_ok_def)
      then show "card (dom (cl_tasks c)) = 0" by linarith
    qed
    then show ?thesis
      using False caps rs runner_for_ok [OF rate, of caps "cl_stopped c" p]
      by (auto simp: handle_assign_def Let_def rate_def [symmetric] client_ok_def)
  qed
qed

lemma stop_task_inv: "client_ok c \<Longrightarrow> client_inv (stop_task k key c)"
proof (cases "cl_tasks c k")
  case (Some r)
  assume ok: "client_ok c"
  then have "rn_stopped r \<longrightarrow> cl_stopped c" using Some by (auto simp: client_ok_def runner_ok_def)
  then show ?thesis
    using ok Some by (auto simp: stop_task_def runner_stop_def client_inv_def intro: client_ok_forget)
qed (simp add: stop_task_def client_inv_def)

lemma client_receive_inv: "client_ok c \<Longrightarrow> client_inv (client_receive env bytes c)"
proof -
  assume ok: "client_ok c"
  have assign: "client_inv (handle_assign env p c)" for p
    using handle_assign_ok [OF ok, of env p] by (auto simp: client_inv_def)
  have same: "client_inv (Returns c)" "client_inv (Returns (call m x p c))" for m x p
    using ok by (simp_all add: client_inv_def)
  show ?thesis
    unfolding client_receive_def handle_master_message_def handle_cancel_def
    by (simp add: assign same stop_task_inv [OF ok] split: option.split)
qed

lemma stop_runners_fresh:
  "\<forall>k \<in> set ks. \<forall>r. m k = Some r \<longrightarrow> \<not> rn_stopped r \<Longrightarrow> distinct ks \<Longrightarrow>
   stop_runners ks m = Returns (\<lambda>k. if k \<in> set ks then map_option (\<lambda>r. r\<lparr>rn_stopped := True\<rparr>) (m k) else m k)"
proof (induction ks arbitrary: m)
  case (Cons k ks)
  show ?case
  proof (cases "m k")
    case None
    then show ?thesis using Cons by (auto simp: fun_eq_iff)
  next
    case (Some r)
    then have step: "stop_runners (k # ks) m = stop_runners ks (m(k \<mapsto> r\<lparr>rn_stopped := True\<rparr>))"
      using Cons.prems by (simp add: runner_stop_def)
    show ?thesis
      unfolding step using Some Cons.prems by (subst Cons.IH) (auto simp: fun_eq_iff)
  qed
qed simp

lemma client_stop_ok:
  assumes "client_ok c" "map_order ks (cl_tasks c)"
  shows "\<exists>c'. client_stop ks c = Returns c' \<and> client_ok c'"
proof (cases "cl_stopped c")
  case True
  then show ?thesis using assms by (simp add: client_stop_def)
next
  case False
  obtain caps where caps: "cl_capabilities c = Some caps" "limits_ok caps" "one_task (cl_tasks c)"
    and rs: "\<And>k r. cl_tasks c k = Some r \<Longrightarrow> runner_ok caps (cl_stopped c) k r"
    using assms(1) by (auto simp: client_ok_def)
  let ?tasks = "\<lambda>k. if k \<in> set ks then map_option (\<lambda>r. r\<lparr>rn_stopped := True\<rparr>) (cl_tasks c k) else cl_tasks c k"
  have st: "stop_runners ks (cl_tasks c) = Returns ?tasks"
    using rs False map_orderD [OF assms(2)] by (intro stop_runners_fresh) (auto simp: runner_ok_def)
  have "dom ?tasks = dom (cl_tasks c)" by (auto split: if_splits)
  then have "one_task ?tasks" using caps(3) by (simp add: one_task_def)
  moreover have "runner_ok caps True k r" if "?tasks k = Some r" for k r
  proof -
    obtain r0 where "cl_tasks c k = Some r0" "r = r0\<lparr>rn_stopped := True\<rparr> \<or> r = r0"
      using \<open>?tasks k = Some r\<close> by (auto split: if_splits)
    then show ?thesis using rs [of k r0] by (auto simp: runner_ok_def)
  qed
  ultimately have "client_ok (c\<lparr>cl_stopped := True, cl_tasks := ?tasks, cl_open := False\<rparr>)"
    unfolding client_ok_def using caps by (intro exI [of _ caps]) simp
  then show ?thesis using False st by (simp add: client_stop_def)
qed

lemma client_step_inv: "client_step env c out \<Longrightarrow> client_ok c \<Longrightarrow> client_inv out"
proof (induction rule: client_step.induct)
  case (cl_stop ks c)
  then show ?case using client_stop_ok [of c ks] by (auto simp: client_inv_def)
next
  case (cl_emit c k r out r')
  then show ?case using emit_ok [of out r r'] by (auto simp: client_inv_def intro!: client_ok_update)
qed (simp_all add: client_inv_def client_receive_inv [unfolded client_inv_def] heartbeat_tick_def split_beta Let_def
       client_ok_report_pass)

interpretation clm: machine_invariant "client_initial env" "client_next env" client_inv
  for env
proof unfold_locales
  fix s t
  assume "client_inv s" "client_next env s t"
  then show "client_inv t" by (auto elim!: client_next.cases simp: client_inv_def [of "Returns _"] client_step_inv)
qed (rule client_ok_initial)


section \<open>Properties\<close>

lemma runner_bounds:
  assumes "runner_ok caps b k r" "limits_ok caps"
  shows "50 \<le> sc_concurrency (scan_config r) \<and> sc_concurrency (scan_config r) \<le> 200 \<and>
    1000 \<le> masscan_rate r \<and> masscan_rate r \<le> 14000 \<and> 0 < ip_sample_size r \<and> ip_sample_size r \<le> 50000 \<and>
    8 \<le> verify_concurrency r \<and> verify_concurrency r \<le> 100"
  using assms
  by (auto simp: runner_ok_def limits_ok_def scan_config_def Let_def masscan_rate_def ip_sample_size_def
      verify_concurrency_def)


text \<open>
  The environment of the witnesses: every frame is an assignment of task \<open>t1\<close> with a rate far
  above the limit, and everything that is sent is the empty JSON object.
\<close>

definition demo_client_env :: client_env where
  "demo_client_env =
     \<lparr>encode_register = (\<lambda>_. Some ''{}''), encode_pull = (\<lambda>_. Some ''{}''), encode_report = (\<lambda>_. Some ''{}''),
      encode_result = (\<lambda>_. Some ''{}''), encode_heartbeat = (\<lambda>_. Some ''{}''), read_response = (\<lambda>_. None),
      read_request = (\<lambda>m. Some \<lparr>rq_jsonrpc = version, rq_method = m, rq_params = None, rq_id = 0\<rparr>),
      read_registered = (\<lambda>_. \<lparr>rr_uuid = [], rr_token = []\<rparr>),
      read_assign = (\<lambda>_. Some \<lparr>ta_task_id = ''t1'', ta_asns = [], ta_cidrs = [], ta_ports = [443], ta_max_rate = 100000,
                               ta_ips = [], ta_shard_index = 0, ta_shard_total = 0\<rparr>),
      read_cancel = (\<lambda>_. Some \<lparr>tc_task_id = ''t1'', tc_reason = []\<rparr>)\<rparr>"

definition demo_client :: client where
  "demo_client = snd (client_run demo_client_env 1 None True
     \<lparr>rs_jsonrpc = version, rs_result = None, rs_error = None, rs_id = 0\<rparr> (new_client ''ws'' ''w'' ''w''))"


end
