(* ===== verification/Fleet.thy ===== *)
theory Fleet
  imports Client MasterSystem
begin

text \<open>
  Master and worker together: what becomes of an assignment, from the frame the scheduler sends
  (\<open>internal/master/task_scheduler.go\<close>) through the worker's handler
  (\<open>internal/worker/client.go\<close>) to the master's handler of the answer
  (\<open>internal/master/handler.go\<close>). That the two sides decode what the other encodes is a
  hypothesis: the JSON package is not modelled.
\<close>

section \<open>Helpers\<close>

lemma handle_result_failed:
  fixes env :: "'p handler_env" and h :: "'p hub"
  assumes "cs_uuid cs \<noteq> []" "rq_method rq = MethodWorkerResult" "decode_result env (rq_params rq) = Some p"
    and "tr_status p \<noteq> ''completed''"
  shows "hub_tasks (final_state (snd (handle_message env ch c rq cs h))) =
    snd (fail_task (ch_unix ch) (tr_task_id p) (hub_tasks h))"
  using assms
  by (simp add: handle_message_def method_defs handle_result_def Let_def split: option.split)

lemma failed_stays:
  assumes "ts_tasks s k = Some t"
  shows "map_option t_status (ts_tasks (snd (fail_task now k s)) k) = Some TaskStatusFailed"
    "ts_pendingQ (snd (fail_task now k s)) = ts_pendingQ s"
    "reassign_task k (snd (fail_task now k s)) = (None, snd (fail_task now k s))"
  using assms by (simp_all add: settled_tasks reassign_task_def active_def)

lemma idle_no_tasks: "one_task m \<Longrightarrow> card (dom m) = 0 \<Longrightarrow> m = Map.empty"
  by (simp add: one_task_def)

lemma runner_for_fields:
  "rn_task_id (runner_for p rate n) = ta_task_id p" "rn_asns (runner_for p rate n) = ta_asns p"
  "rn_cidrs (runner_for p rate n) = ta_cidrs p" "rn_ports (runner_for p rate n) = ta_ports p"
  "rn_max_rate (runner_for p rate n) = rate" "rn_max_concurrency (runner_for p rate n) = n"
  "rn_ips (runner_for p rate n) =
     (if ta_ips p \<noteq> [] then ta_ips p else if ta_asns p \<in> {[], [[]]} then default_test_ips else [])"
  by (auto simp: runner_for_def Let_def set_ips_def set_shard_def new_task_runner_def)

section \<open>Property\<close>

text \<open>
  C12. What becomes of a task the scheduler sends to a worker. An idle worker runs exactly that
  task, with its CIDRs, ports and AS numbers, at its rate but at most 14000, and answers
  nothing yet. A worker that is still busy keeps its own task and answers at once with a failed
  result. The comment there says this makes the master reassign the task; what the master does
  with it is to mark the task failed, and a failed task is never given back to the queue.
\<close>

theorem assignment_outcome:
  fixes henv :: "'p handler_env" and h :: "'p hub"
  assumes reachable: "reach (client_initial cenv) (client_next cenv) (Returns c)" and "cl_open c"
    and frame: "\<not> is_answer (read_response cenv bytes)" "read_request cenv bytes = Some req"
      "rq_method req = MethodMasterTaskAssign" "read_assign cenv (rq_params req) = Some (assign_params t)"
    and codec: "encode_result cenv (rejection (t_id t)) = Some b" "decode_result henv (Some b) = Some (rejection (t_id t))"
    and master: "cs_uuid cs \<noteq> []" "ts_tasks (hub_tasks h) (t_id t) = Some t"
  shows "\<exists>c'. client_receive cenv bytes c = Returns c' \<and>
    (if running_tasks c = 0 then cl_sent c' = cl_sent c \<and>
       (\<exists>r. cl_tasks c' = [t_id t \<mapsto> r] \<and> rn_task_id r = t_id t \<and> rn_cidrs r = t_cidrs t \<and> rn_ports r = t_ports t \<and>
          rn_asns r = t_asns t \<and> rn_max_rate r = min (t_max_rate t) 14000)
     else cl_tasks c' = cl_tasks c \<and>
       (\<exists>rq. cl_sent c' = cl_sent c @ [rq] \<and>
          (let ts = hub_tasks (final_state (snd (handle_message henv ch conn rq cs h)))
           in map_option t_status (ts_tasks ts (t_id t)) = Some TaskStatusFailed \<and>
              ts_pendingQ ts = ts_pendingQ (hub_tasks h) \<and> reassign_task (t_id t) ts = (None, ts))))"
proof -
  obtain caps where caps: "cl_capabilities c = Some caps" "max_tasks caps = 1" "max_rate caps = 14000"
    and one: "one_task (cl_tasks c)"
    using clm.inv_reach [OF reachable] by (auto simp: client_inv_def client_ok_def limits_ok_def)
  have receive: "client_receive cenv bytes c = handle_assign cenv (assign_params t) c"
    using frame by (simp add: client_receive_def handle_master_message_def method_defs)
  show ?thesis
  proof (cases "running_tasks c = 0")
    case True
    then have "cl_tasks c = Map.empty" using idle_no_tasks [OF one] by (simp add: running_tasks_def)
    then have "client_receive cenv bytes c = Returns (c\<lparr>cl_tasks := [t_id t \<mapsto>
        runner_for (assign_params t) (min (t_max_rate t) 14000) (max_concurrent caps)]\<rparr>)"
      using True caps by (simp add: receive handle_assign_def Let_def assign_params_def min_def)
    moreover obtain r where r: "r = runner_for (assign_params t) (min (t_max_rate t) 14000) (max_concurrent caps)"
      by blast
    moreover have "rn_task_id r = t_id t \<and> rn_cidrs r = t_cidrs t \<and> rn_ports r = t_ports t \<and> rn_asns r = t_asns t \<and>
        rn_max_rate r = min (t_max_rate t) 14000"
      unfolding r runner_for_fields by (simp add: assign_params_def)
    ultimately show ?thesis
      using True by (intro exI [of _ "c\<lparr>cl_tasks := [t_id t \<mapsto> r]\<rparr>"]) auto
  next
    case False
    then have busy: "running_tasks c \<ge> 1" by (simp add: running_tasks_def)
    let ?rq = "\<lparr>rq_jsonrpc = version, rq_method = MethodWorkerResult, rq_params = Some b, rq_id = cl_next_id c\<rparr>"
    have "client_receive cenv bytes c = Returns (send_result cenv (rejection (t_id t)) c)"
      using busy caps by (simp add: receive handle_assign_def Let_def assign_params_def)
    moreover have "cl_sent (send_result cenv (rejection (t_id t)) c) = cl_sent c @ [?rq]"
      using \<open>cl_open c\<close> codec by (simp add: send_result_def call_def request_of_def new_request_def)
    moreover have "hub_tasks (final_state (snd (handle_message henv ch conn ?rq cs h))) =
        snd (fail_task (ch_unix ch) (t_id t) (hub_tasks h))"
      using handle_result_failed [of cs ?rq henv "rejection (t_id t)" ch conn h] codec master(1)
      by (simp add: rejection_def)
    ultimately show ?thesis
      using False failed_stays [OF master(2)] by (simp add: send_result_def)
  qed
qed

text \<open>The busy case: the client of the witness runs \<open>t1\<close> when \<open>t_1\<close> arrives.\<close>

theorem assignment_outcome_witness:
  "\<exists>cenv (henv :: unit handler_env) c c' rq t.
     running_tasks c = 1 \<and> ts_tasks one_held ''t_1'' = Some t \<and> t_status t = TaskStatusAssigned \<and>
     client_receive cenv MethodMasterTaskAssign c = Returns c' \<and> cl_sent c' = cl_sent c @ [rq] \<and>
     map_option t_status (ts_tasks (hub_tasks (final_state (snd (handle_message henv demo_choices 7 rq
        \<lparr>cs_uuid = ''w'', cs_name = ''w''\<rparr> (demo_hub one_held))))) ''t_1'') = Some TaskStatusFailed"
proof -
  obtain t where t: "ts_tasks one_held ''t_1'' = Some t" "t_id t = ''t_1''" "t_status t = TaskStatusAssigned"
    by simp
  let ?henv = "demo_henv\<lparr>decode_result := \<lambda>_. Some (rejection ''t_1'')\<rparr>"
  let ?cenv = "demo_client_env\<lparr>read_request := \<lambda>m. Some \<lparr>rq_jsonrpc = version, rq_method = MethodMasterTaskAssign,
       rq_params = Some m, rq_id = 0\<rparr>, read_assign := \<lambda>m. Some (if m = Some ''first'' then assign_params (t\<lparr>t_id := ''t1''\<rparr>) else assign_params t)\<rparr>"
  define c0 where "c0 = snd (client_run ?cenv 1 None True
     \<lparr>rs_jsonrpc = version, rs_result = None, rs_error = None, rs_id = 0\<rparr> (new_client ''ws'' ''w'' ''w''))"
  have init: "reach (client_initial ?cenv) (client_next ?cenv) (Returns c0)"
    unfolding c0_def by (rule reach_init) (unfold client_initial_def, blast)
  have c0: "cl_capabilities c0 = Some \<lparr>cpu_count = 1, memory_mb = 512, max_tasks = 1, max_concurrent = 50, max_rate = 14000\<rparr>"
    "cl_tasks c0 = Map.empty" "cl_open c0"
    by (simp_all add: c0_def client_run_def detect_hardware_def calculate_limits_def Let_def pull_def
        register_client_def new_client_def)
  obtain c where c: "client_receive ?cenv ''first'' c0 = Returns c" "dom (cl_tasks c) = {''t1''}" "cl_open c"
    by (simp add: client_receive_def demo_client_env_def is_answer_def handle_master_message_def method_defs
        handle_assign_def c0 running_tasks_def assign_params_def)
  have "client_next ?cenv (Returns c0) (Returns c)"
    using client_goes_on [OF cl_message, of ?cenv c0 "''first''"] c(1) by simp
  then have reachable: "reach (client_initial ?cenv) (client_next ?cenv) (Returns c)"
    by (rule reach_step [OF init])
  have "running_tasks c = 1" using c(2) by (simp add: running_tasks_def)
  moreover obtain c' where "client_receive ?cenv MethodMasterTaskAssign c = Returns c' \<and>
    (if running_tasks c = 0 then cl_sent c' = cl_sent c \<and>
       (\<exists>r. cl_tasks c' = [t_id t \<mapsto> r] \<and> rn_task_id r = t_id t \<and> rn_cidrs r = t_cidrs t \<and> rn_ports r = t_ports t \<and>
          rn_asns r = t_asns t \<and> rn_max_rate r = min (t_max_rate t) 14000)
     else cl_tasks c' = cl_tasks c \<and>
       (\<exists>rq. cl_sent c' = cl_sent c @ [rq] \<and>
          (let ts = hub_tasks (final_state (snd (handle_message ?henv demo_choices 7 rq
                \<lparr>cs_uuid = ''w'', cs_name = ''w''\<rparr> (demo_hub one_held))))
           in map_option t_status (ts_tasks ts (t_id t)) = Some TaskStatusFailed \<and>
              ts_pendingQ ts = ts_pendingQ (hub_tasks (demo_hub one_held)) \<and> reassign_task (t_id t) ts = (None, ts))))"
    using assignment_outcome [OF reachable c(3), of MethodMasterTaskAssign _ t "''{}''" ?henv
        "\<lparr>cs_uuid = ''w'', cs_name = ''w''\<rparr>" "demo_hub one_held" demo_choices 7] t
    by (auto simp: demo_client_env_def is_answer_def method_defs)
  ultimately show ?thesis
    using t unfolding Let_def by (metis zero_neq_one)
qed

end
