(* ===== verification/PgStore.thy ===== *)
theory PgStore
  imports Text
begin

text \<open>
  The store of the second version (\<open>v2/internal/pg/pg.go\<close>): the tables the SQL statements use and
  one function per operation. A statement is atomic. The schema is not in the repository: what
  the code leaves to it (column defaults, unique keys beyond those the statements name) is a
  parameter. Statements whose error the code drops are taken to succeed; the two operations that
  look at errors have the outcome of each statement as an argument.
\<close>

section \<open>Tables\<close>

record job_row =
  jr_name :: string
  jr_mode :: string
  jr_asns :: string
  jr_ports :: string
  jr_status :: string
  jr_phase :: string
  jr_total_workers :: int
  jr_done_workers :: int
  jr_total_items :: int
  jr_created_at :: instant

record worker_row =
  wr_name :: string
  wr_cpu_count :: int
  wr_memory_mb :: int
  wr_max_concurrent :: int
  wr_masscan_rate :: int
  wr_last_seen :: instant
  wr_status :: string

record heartbeat_row =
  hr_last_seen :: instant
  hr_current_job :: string
  hr_activity :: "string option"

text \<open>A row that names a host of a job: its key is the job, the address and the port.\<close>

type_synonym host = "string \<times> string \<times> int"

record queue_row =
  qr_id :: nat
  qr_host :: host
  qr_status :: string
  qr_worker :: "string option"

record result_row =
  rw_status :: string
  rw_colo :: string
  rw_country :: string
  rw_asn :: string
  rw_delay :: int
  rw_city :: string
  rw_org :: string

record db =
  db_jobs :: "string \<rightharpoonup> job_row"
  db_workers :: "string \<rightharpoonup> worker_row"
  db_beats :: "string \<rightharpoonup> heartbeat_row"
  db_masscan :: "host list"
  db_queue :: "queue_row list"
  db_next :: nat
  db_results :: "host \<rightharpoonup> result_row"

text \<open>
  The schema's part: the row \<open>CreateJob\<close> starts from at a given time, the status of a new queue item, the
  activity of a new heartbeat, and whether \<open>(job_id, ip, port)\<close> is a unique key of the
  masscan results and of the work queue.
\<close>

record schema =
  new_job_row :: "instant \<Rightarrow> job_row"
  new_item_status :: string
  new_activity :: "string option"
  masscan_unique :: bool
  queue_unique :: bool

section \<open>Workers\<close>

definition db_heartbeat :: "schema \<Rightarrow> instant \<Rightarrow> string \<Rightarrow> string \<Rightarrow> db \<Rightarrow> db" where
  "db_heartbeat sch now w job d = d\<lparr>db_beats := (db_beats d)(w \<mapsto>
     (case db_beats d w of
        None \<Rightarrow> \<lparr>hr_last_seen = now, hr_current_job = job, hr_activity = new_activity sch\<rparr>
      | Some h \<Rightarrow> h\<lparr>hr_last_seen := now, hr_current_job := job\<rparr>))\<rparr>"

definition set_activity :: "string \<Rightarrow> string \<Rightarrow> db \<Rightarrow> db" where
  "set_activity w activity d =
     d\<lparr>db_beats := (db_beats d)(w := map_option (\<lambda>h. h\<lparr>hr_activity := Some activity\<rparr>) (db_beats d w))\<rparr>"

definition register_worker :: "instant \<Rightarrow> string \<Rightarrow> string \<Rightarrow> int \<Rightarrow> int \<Rightarrow> int \<Rightarrow> int \<Rightarrow> db \<Rightarrow> db" where
  "register_worker now w name cpu mem conc rate d =
     d\<lparr>db_workers := (db_workers d)(w \<mapsto>
         \<lparr>wr_name = name, wr_cpu_count = cpu, wr_memory_mb = mem, wr_max_concurrent = conc,
          wr_masscan_rate = rate, wr_last_seen = now, wr_status = ''online''\<rparr>)\<rparr>"

definition deregister_worker :: "string \<Rightarrow> db \<Rightarrow> db" where
  "deregister_worker w d =
     d\<lparr>db_workers := (db_workers d)(w := map_option (\<lambda>r. r\<lparr>wr_status := ''offline''\<rparr>) (db_workers d w))\<rparr>"

section \<open>Phase 1\<close>

text \<open>\<open>INSERT ... ON CONFLICT DO NOTHING\<close>, one row after the other.\<close>

definition add_host :: "bool \<Rightarrow> host \<Rightarrow> host list \<Rightarrow> host list" where
  "add_host unique h rows = (if unique \<and> h \<in> set rows then rows else rows @ [h])"

definition add_hosts :: "bool \<Rightarrow> host list \<Rightarrow> host list \<Rightarrow> host list" where
  "add_hosts unique hs rows = fold (add_host unique) hs rows"

text \<open>The loop over batches of \<open>n\<close> rows; with \<open>n = 0\<close> the loop would not advance.\<close>

fun batches :: "nat \<Rightarrow> 'a list \<Rightarrow> 'a list list" where
  "batches n xs = (if xs = [] \<or> n = 0 then [] else take n xs # batches n (drop n xs))"

declare batches.simps [simp del]

datatype exec_result = Committed | Deadlock | ExecError

text \<open>
  The attempts at one batch: at most three, retrying only after a deadlock; \<open>exec k\<close> is what
  happens to attempt \<open>k\<close>.
\<close>

fun attempts :: "nat \<Rightarrow> (nat \<Rightarrow> exec_result) \<Rightarrow> nat \<Rightarrow> bool" where
  "attempts 0 exec k = False"
| "attempts (Suc n) exec k =
     (case exec k of Committed \<Rightarrow> True | Deadlock \<Rightarrow> attempts n exec (Suc k) | ExecError \<Rightarrow> False)"

fun insert_batches :: "schema \<Rightarrow> (nat \<Rightarrow> nat \<Rightarrow> exec_result) \<Rightarrow> string \<Rightarrow> int \<Rightarrow> nat \<Rightarrow> string list list \<Rightarrow> db \<Rightarrow> bool \<times> db" where
  "insert_batches sch exec job port i [] d = (True, d)"
| "insert_batches sch exec job port i (ips # rest) d =
     (if attempts 3 (exec i) 0
      then insert_batches sch exec job port (Suc i) rest
             (d\<lparr>db_masscan := add_hosts (masscan_unique sch) (map (\<lambda>ip. (job, ip, port)) ips) (db_masscan d)\<rparr>)
      else (False, d))"

definition insert_masscan_results ::
  "schema \<Rightarrow> (nat \<Rightarrow> nat \<Rightarrow> exec_result) \<Rightarrow> string \<Rightarrow> string list \<Rightarrow> int \<Rightarrow> db \<Rightarrow> bool \<times> db" where
  "insert_masscan_results sch exec job ips port d =
     (if ips = [] then (True, d) else insert_batches sch exec job port 0 (batches 500 ips) d)"

text \<open>
  The placeholders of the statement for a batch, and the whole list of them.
\<close>

definition placeholder :: "nat \<Rightarrow> string" where
  "placeholder j = ''($'' @ fmt_d (int j * 3 + 1) @ '',$'' @ fmt_d (int j * 3 + 2) @ '',$'' @ fmt_d (int j * 3 + 3) @ '')''"

definition insert_query :: "nat \<Rightarrow> string" where
  "insert_query n = ''INSERT INTO masscan_results (job_id, ip, port) VALUES '' @
     join '','' (map placeholder [0..<n]) @ '' ON CONFLICT DO NOTHING''"

text \<open>
  The bulk variant copies the rows in one transaction. \<open>COPY\<close> knows no conflict clause: with a
  unique key one row that is there already makes it fail, and nothing is committed.
\<close>

definition insert_masscan_bulk :: "schema \<Rightarrow> bool \<Rightarrow> string \<Rightarrow> string list \<Rightarrow> int \<Rightarrow> db \<Rightarrow> bool \<times> db" where
  "insert_masscan_bulk sch exec_ok job ips port d =
     (let rows = map (\<lambda>ip. (job, ip, port)) ips
      in if \<not> exec_ok \<or> masscan_unique sch \<and> (\<not> distinct rows \<or> set rows \<inter> set (db_masscan d) \<noteq> {}) then (False, d)
         else (True, d\<lparr>db_masscan := db_masscan d @ rows\<rparr>))"

definition modify_job :: "(job_row \<Rightarrow> job_row) \<Rightarrow> string \<Rightarrow> db \<Rightarrow> db" where
  "modify_job f job d = d\<lparr>db_jobs := (db_jobs d)(job := map_option f (db_jobs d job))\<rparr>"

definition mark_phase1_done :: "string \<Rightarrow> db \<Rightarrow> db" where
  "mark_phase1_done = modify_job (\<lambda>j. j\<lparr>jr_done_workers := jr_done_workers j + 1\<rparr>)"

section \<open>The work queue\<close>

definition update_queue :: "(queue_row \<Rightarrow> bool) \<Rightarrow> (queue_row \<Rightarrow> queue_row) \<Rightarrow> db \<Rightarrow> db" where
  "update_queue where_clause f d = d\<lparr>db_queue := map (\<lambda>q. if where_clause q then f q else q) (db_queue d)\<rparr>"

definition item_done :: "queue_row \<Rightarrow> queue_row" where
  "item_done q = q\<lparr>qr_status := ''done''\<rparr>"

definition item_reset :: "queue_row \<Rightarrow> queue_row" where
  "item_reset q = q\<lparr>qr_status := ''pending'', qr_worker := None\<rparr>"

definition mark_work_done :: "string \<Rightarrow> string \<Rightarrow> int \<Rightarrow> string \<Rightarrow> db \<Rightarrow> db" where
  "mark_work_done job ip port status = update_queue (\<lambda>q. qr_host q = (job, ip, port)) item_done"

text \<open>\<open>ok\<close>: whether the transaction can be begun and the statement prepared.\<close>

definition mark_work_scanned_batch :: "bool \<Rightarrow> string \<Rightarrow> (string \<times> int) list \<Rightarrow> db \<Rightarrow> db" where
  "mark_work_scanned_batch ok job items d =
     (if items = [] \<or> \<not> ok then d
      else fold (\<lambda>(ip, port). update_queue (\<lambda>q. qr_host q = (job, ip, port)) item_done) items d)"

text \<open>
  The subquery of \<open>FetchWorkBatch\<close> takes up to \<open>limit\<close> pending rows of the job, any of them, and
  skips rows another transaction has locked; it takes as many as it can of the others.
\<close>

definition pending_ids :: "string \<Rightarrow> db \<Rightarrow> nat set" where
  "pending_ids job d = qr_id ` {q \<in> set (db_queue d). fst (qr_host q) = job \<and> qr_status q = ''pending''}"

definition may_fetch :: "string \<Rightarrow> nat \<Rightarrow> nat set \<Rightarrow> nat set \<Rightarrow> db \<Rightarrow> bool" where
  "may_fetch job limit locked ids d \<longleftrightarrow>
     ids \<subseteq> pending_ids job d - locked \<and> card ids = min limit (card (pending_ids job d - locked))"

type_synonym work_item = "nat \<times> string \<times> int"

definition fetch_work_batch :: "nat set \<Rightarrow> string \<Rightarrow> db \<Rightarrow> work_item list \<times> db" where
  "fetch_work_batch ids w d =
     (map (\<lambda>q. (qr_id q, snd (qr_host q))) (filter (\<lambda>q. qr_id q \<in> ids) (db_queue d)),
      update_queue (\<lambda>q. qr_id q \<in> ids) (\<lambda>q. q\<lparr>qr_status := ''processing'', qr_worker := Some w\<rparr>) d)"

definition insert_result ::
  "string \<Rightarrow> string \<Rightarrow> int \<Rightarrow> string \<Rightarrow> string \<Rightarrow> string \<Rightarrow> string \<Rightarrow> int \<Rightarrow> string \<Rightarrow> string \<Rightarrow> db \<Rightarrow> db" where
  "insert_result job ip port status colo country asn delay city org d =
     update_queue (\<lambda>q. qr_host q = (job, ip, port)) item_done
       (d\<lparr>db_results := (db_results d)((job, ip, port) \<mapsto>
            \<lparr>rw_status = status, rw_colo = colo, rw_country = country, rw_asn = asn, rw_delay = delay,
             rw_city = city, rw_org = org\<rparr>)\<rparr>)"

fun enqueue_hosts :: "schema \<Rightarrow> host list \<Rightarrow> db \<Rightarrow> db" where
  "enqueue_hosts sch [] d = d"
| "enqueue_hosts sch (h # hs) d =
     (if queue_unique sch \<and> h \<in> qr_host ` set (db_queue d) then enqueue_hosts sch hs d
      else enqueue_hosts sch hs
        (d\<lparr>db_queue := db_queue d @ [\<lparr>qr_id = db_next d, qr_host = h, qr_status = new_item_status sch, qr_worker = None\<rparr>],
           db_next := db_next d + 1\<rparr>))"

definition populate_work_queue :: "schema \<Rightarrow> string \<Rightarrow> db \<Rightarrow> db" where
  "populate_work_queue sch job d = enqueue_hosts sch (filter (\<lambda>h. fst h = job) (db_masscan d)) d"

section \<open>Jobs\<close>

definition create_job :: "schema \<Rightarrow> instant \<Rightarrow> string \<Rightarrow> string \<Rightarrow> string \<Rightarrow> string \<Rightarrow> string \<Rightarrow> int \<Rightarrow> db \<Rightarrow> bool \<times> db" where
  "create_job sch now job name mode asns ports workers d =
     (if db_jobs d job \<noteq> None then (False, d)
      else (True, d\<lparr>db_jobs := (db_jobs d)(job \<mapsto> (new_job_row sch now)\<lparr>jr_name := name, jr_mode := mode,
              jr_asns := asns, jr_ports := ports, jr_total_workers := workers\<rparr>)\<rparr>))"

definition update_job_phase :: "string \<Rightarrow> string \<Rightarrow> int \<Rightarrow> db \<Rightarrow> db" where
  "update_job_phase job phase items d =
     (let d1 = modify_job (\<lambda>j. j\<lparr>jr_phase := phase, jr_total_items := items\<rparr>) job d
      in if phase = ''done'' then modify_job (\<lambda>j. j\<lparr>jr_status := ''done''\<rparr>) job d1 else d1)"

definition cancel_job :: "string \<Rightarrow> db \<Rightarrow> db" where
  "cancel_job job d =
     update_queue (\<lambda>q. fst (qr_host q) = job \<and> qr_status q = ''processing'') item_reset
       (modify_job (\<lambda>j. j\<lparr>jr_status := ''cancelled''\<rparr>) job d)"

definition delete_job :: "string \<Rightarrow> db \<Rightarrow> db" where
  "delete_job job d =
     d\<lparr>db_results := (\<lambda>h. if fst h = job then None else db_results d h),
       db_queue := filter (\<lambda>q. fst (qr_host q) \<noteq> job) (db_queue d),
       db_masscan := filter (\<lambda>h. fst h \<noteq> job) (db_masscan d),
       db_jobs := (db_jobs d)(job := None)\<rparr>"

text \<open>A query without a row leaves the variable at its zero value.\<close>

definition job_column :: "(job_row \<Rightarrow> string) \<Rightarrow> string \<Rightarrow> db \<Rightarrow> string" where
  "job_column f job d = (case db_jobs d job of None \<Rightarrow> [] | Some j \<Rightarrow> f j)"

definition is_job_cancelled :: "string \<Rightarrow> db \<Rightarrow> bool" where
  "is_job_cancelled job d \<longleftrightarrow> job_column jr_status job d = ''cancelled''"

section \<open>Reading\<close>

definition count_queue :: "(queue_row \<Rightarrow> bool) \<Rightarrow> string \<Rightarrow> db \<Rightarrow> int" where
  "count_queue p job d = int (length (filter (\<lambda>q. fst (qr_host q) = job \<and> p q) (db_queue d)))"

text \<open>\<open>hs\<close> enumerates the keys of the results.\<close>

definition result_rows :: "host list \<Rightarrow> (result_row \<Rightarrow> bool) \<Rightarrow> string \<Rightarrow> db \<Rightarrow> (host \<times> result_row) list" where
  "result_rows hs p job d = List.map_filter (\<lambda>h. case db_results d h of
       Some r \<Rightarrow> (if fst h = job \<and> p r then Some (h, r) else None) | None \<Rightarrow> None) hs"

definition count_results :: "host list \<Rightarrow> (result_row \<Rightarrow> bool) \<Rightarrow> string \<Rightarrow> db \<Rightarrow> int" where
  "count_results hs p job d = int (length (result_rows hs p job d))"

definition get_job_stats :: "host list \<Rightarrow> string \<Rightarrow> db \<Rightarrow> int \<times> int" where
  "get_job_stats hs job d =
     (let phase = job_column jr_phase job d
      in if phase = ''phase1'' then (int (length (filter (\<lambda>h. fst h = job) (db_masscan d))), 0)
         else if phase = ''phase2b'' then
           (count_results hs (\<lambda>r. rw_status r = ''verified'') job d, count_results hs (\<lambda>_. True) job d)
         else (count_queue (\<lambda>q. qr_status q \<noteq> ''pending'') job d, count_queue (\<lambda>_. True) job d))"

definition get_results :: "host list \<Rightarrow> string \<Rightarrow> db \<Rightarrow> (host \<times> result_row) list" where
  "get_results hs job d =
     sort_key (\<lambda>(h, r). rw_delay r) (result_rows hs (\<lambda>r. rw_colo r \<noteq> []) job d)"


section \<open>Updates of the queue\<close>

lemma update_queue_fields [simp]:
  "db_jobs (update_queue p f d) = db_jobs d" "db_workers (update_queue p f d) = db_workers d"
  "db_beats (update_queue p f d) = db_beats d" "db_masscan (update_queue p f d) = db_masscan d"
  "db_results (update_queue p f d) = db_results d" "db_next (update_queue p f d) = db_next d"
  "db_queue (update_queue p f d) = map (\<lambda>q. if p q then f q else q) (db_queue d)"
  by (simp_all add: update_queue_def)

lemma item_fields [simp]:
  "qr_id (item_done q) = qr_id q" "qr_host (item_done q) = qr_host q" "qr_status (item_done q) = ''done''"
  "qr_id (item_reset q) = qr_id q" "qr_host (item_reset q) = qr_host q" "qr_status (item_reset q) = ''pending''"
  "qr_worker (item_reset q) = None" "qr_worker (item_done q) = qr_worker q" "item_done (item_done q) = item_done q"
  by (simp_all add: item_done_def item_reset_def)

lemma modify_job_fields [simp]:
  "db_queue (modify_job f job d) = db_queue d" "db_workers (modify_job f job d) = db_workers d"
  "db_beats (modify_job f job d) = db_beats d" "db_masscan (modify_job f job d) = db_masscan d"
  "db_results (modify_job f job d) = db_results d" "db_next (modify_job f job d) = db_next d"
  "db_jobs (modify_job f job d) = (db_jobs d)(job := map_option f (db_jobs d job))"
  by (simp_all add: modify_job_def)

lemma set_activity_fields [simp]:
  "db_queue (set_activity w a d) = db_queue d" "db_workers (set_activity w a d) = db_workers d"
  "db_jobs (set_activity w a d) = db_jobs d" "db_masscan (set_activity w a d) = db_masscan d"
  "db_results (set_activity w a d) = db_results d" "db_next (set_activity w a d) = db_next d"
  by (simp_all add: set_activity_def)

text \<open>Marking the items of a set of hosts, which is what every scan result comes to.\<close>

definition mark_hosts :: "host set \<Rightarrow> db \<Rightarrow> db" where
  "mark_hosts H = update_queue (\<lambda>q. qr_host q \<in> H) item_done"

lemma mark_hosts_fields [simp]:
  "db_jobs (mark_hosts H d) = db_jobs d" "db_workers (mark_hosts H d) = db_workers d"
  "db_beats (mark_hosts H d) = db_beats d" "db_masscan (mark_hosts H d) = db_masscan d"
  "db_results (mark_hosts H d) = db_results d" "db_next (mark_hosts H d) = db_next d"
  "db_queue (mark_hosts H d) = map (\<lambda>q. if qr_host q \<in> H then item_done q else q) (db_queue d)"
  by (simp_all add: mark_hosts_def)

lemma mark_hosts_empty [simp]: "mark_hosts {} d = d"
  by (simp add: mark_hosts_def update_queue_def)

lemma mark_hosts_mark_hosts [simp]: "mark_hosts A (mark_hosts B d) = mark_hosts (A \<union> B) d"
  by (simp add: mark_hosts_def update_queue_def comp_def)

lemma mark_hosts_results: "mark_hosts H (d\<lparr>db_results := m\<rparr>) = (mark_hosts H d)\<lparr>db_results := m\<rparr>"
  by (simp add: mark_hosts_def update_queue_def)

lemma mark_batch_hosts:
  "mark_work_scanned_batch True job items d = mark_hosts ((\<lambda>(ip, port). (job, ip, port)) ` set items) d"
proof -
  have one: "update_queue (\<lambda>q. qr_host q = h) item_done d = mark_hosts {h} d" for h d
    by (simp add: mark_hosts_def)
  have "fold (\<lambda>(ip, port). update_queue (\<lambda>q. qr_host q = (job, ip, port)) item_done) items d =
      mark_hosts ((\<lambda>(ip, port). (job, ip, port)) ` set items) d"
    by (induction items arbitrary: d) (simp_all add: one split_beta)
  then show ?thesis by (simp add: mark_work_scanned_batch_def)
qed

lemma insert_result_hosts:
  "insert_result job ip port status colo country asn delay city org d =
     mark_hosts {(job, ip, port)} (d\<lparr>db_results := (db_results d)((job, ip, port) \<mapsto>
            \<lparr>rw_status = status, rw_colo = colo, rw_country = country, rw_asn = asn, rw_delay = delay,
             rw_city = city, rw_org = org\<rparr>)\<rparr>)"
  by (simp add: insert_result_def mark_hosts_def)

section \<open>Insertion of masscan results\<close>

lemma set_add_hosts: "set (add_hosts u hs rows) = set rows \<union> set hs"
  by (induction hs arbitrary: rows) (auto simp: add_hosts_def add_host_def)

lemma concat_batches: "0 < n \<Longrightarrow> concat (batches n xs) = xs"
proof (induction n xs rule: batches.induct)
  case (1 n xs)
  then show ?case by (subst batches.simps) auto
qed

lemma batches_length: "b \<in> set (batches n xs) \<Longrightarrow> b \<noteq> [] \<and> length b \<le> n"
proof (induction n xs rule: batches.induct)
  case (1 n xs)
  then show ?case by (subst (asm) (2) batches.simps) (auto split: if_splits)
qed

lemma insert_batches_rows:
  "insert_batches sch exec job port i bs d = (ok, d') \<Longrightarrow>
   d' = d\<lparr>db_masscan := db_masscan d'\<rparr> \<and> set (db_masscan d) \<subseteq> set (db_masscan d') \<and>
   set (db_masscan d') \<subseteq> set (db_masscan d) \<union> (\<lambda>ip. (job, ip, port)) ` set (concat bs) \<and>
   (ok \<longrightarrow> set (db_masscan d') = set (db_masscan d) \<union> (\<lambda>ip. (job, ip, port)) ` set (concat bs))"
proof (induction bs arbitrary: i d)
  case (Cons b bs)
  show ?case
  proof (cases "attempts 3 (exec i) 0")
    case True
    let ?d = "d\<lparr>db_masscan := add_hosts (masscan_unique sch) (map (\<lambda>ip. (job, ip, port)) b) (db_masscan d)\<rparr>"
    have "insert_batches sch exec job port (Suc i) bs ?d = (ok, d')" using Cons.prems True by simp
    from Cons.IH [OF this] show ?thesis by (simp add: set_add_hosts image_Un Un_assoc)
  next
    case False
    then show ?thesis using Cons.prems by auto
  qed
qed auto

lemma insert_masscan_rows:
  "insert_masscan_results sch exec job ips port d = (ok, d') \<Longrightarrow>
   d' = d\<lparr>db_masscan := db_masscan d'\<rparr> \<and> set (db_masscan d) \<subseteq> set (db_masscan d') \<and>
   set (db_masscan d') \<subseteq> set (db_masscan d) \<union> (\<lambda>ip. (job, ip, port)) ` set ips \<and>
   (ok \<longrightarrow> set (db_masscan d') = set (db_masscan d) \<union> (\<lambda>ip. (job, ip, port)) ` set ips)"
proof (cases "ips = []")
  case False
  assume "insert_masscan_results sch exec job ips port d = (ok, d')"
  then have "insert_batches sch exec job port 0 (batches 500 ips) d = (ok, d')"
    using False by (simp add: insert_masscan_results_def)
  from insert_batches_rows [OF this] show ?thesis by (simp add: concat_batches)
qed (auto simp: insert_masscan_results_def)

lemma insert_batches_ok: "\<forall>b a. exec b a = Committed \<Longrightarrow> fst (insert_batches sch exec job port i bs d)"
  by (induction bs arbitrary: i d) (simp_all add: numeral_3_eq_3)

lemma insert_masscan_ok: "\<forall>b a. exec b a = Committed \<Longrightarrow> fst (insert_masscan_results sch exec job ips port d)"
  by (simp add: insert_masscan_results_def insert_batches_ok)

end
