(* ===== verification/MasterV2.thy ===== *)
theory MasterV2
  imports PgStore Resolver
begin

text \<open>
  The master of the second version (\<open>v2/cmd/master/main.go\<close>): the form of a new job, its
  start (resolution, choice of workers, split of the CIDRs weighted by their rates), the two
  watchers that move jobs through their phases, and the other requests, over the tables of
  \<open>PgStore\<close>. HTTP, JSON and the message broker are outside; what is published is a result of
  the operation.
\<close>

section \<open>The form of a new job\<close>

definition form_asns :: "string \<Rightarrow> string list" where
  "form_asns s = filter (\<lambda>a. a \<noteq> []) (map trim_space (split_on (CHR '','') s))"

definition form_ports :: "string \<Rightarrow> int list" where
  "form_ports s =
     (let ports = List.map_filter (\<lambda>p. case atoi (trim_space p) of
                    None \<Rightarrow> None | Some port \<Rightarrow> if port > 0 then Some port else None) (split_on (CHR '','') s)
      in if ports = [] then [443] else ports)"

definition form_mode :: "string \<Rightarrow> string" where
  "form_mode mode = (if mode = [] then ''tls'' else mode)"

text \<open>The two Chinese characters of the generated name are three bytes each.\<close>

definition form_name :: "string \<Rightarrow> string list \<Rightarrow> string" where
  "form_name name asns =
     (if name \<noteq> [] then name
      else let joined = join ''+'' asns; short = (if length joined > 40 then take 40 joined else joined)
           in if length asns > 3
              then join ''+'' (take 3 asns) @ ''+'' @ [CHR 0xE7, CHR 0xAD, CHR 0x89] @ fmt_d (int (length asns)) @
                   [CHR 0xE4, CHR 0xB8, CHR 0xAA]
              else short)"

definition job_id :: "int \<Rightarrow> string" where
  "job_id nanos = ''j_'' @ fmt_d nanos"

definition handle_create_job :: "schema \<Rightarrow> instant \<Rightarrow> string \<Rightarrow> string \<Rightarrow> string \<Rightarrow> string \<Rightarrow> db \<Rightarrow> db" where
  "handle_create_job sch nanos asnsStr portsStr mode name d =
     snd (create_job sch nanos (job_id nanos) (form_name name (form_asns asnsStr)) (form_mode mode) asnsStr portsStr 0 d)"

section \<open>Splitting the work\<close>

record masscan_msg =
  mm_job_id :: string
  mm_worker :: string
  mm_cidrs :: "string list"
  mm_ports :: "int list"
  mm_max_rate :: int

text \<open>All weights are one when all rates are zero.\<close>

definition weights :: "int list \<Rightarrow> int list" where
  "weights rates = (if sum_list rates = 0 then map (\<lambda>_. 1) rates else rates)"

definition slice :: "int \<Rightarrow> int \<Rightarrow> 'a list \<Rightarrow> 'a list" where
  "slice a b xs = take (nat (b - a)) (drop (nat a) xs)"

definition chunk_end :: "int \<Rightarrow> int \<Rightarrow> bool \<Rightarrow> int \<Rightarrow> int \<Rightarrow> int" where
  "chunk_end n whole last_worker rate offset =
     (let c1 = go_div (n * rate) whole;
          c2 = (if last_worker then n - offset else c1);
          c3 = (if c2 < 1 then 1 else c2);
          end1 = offset + c3
      in if end1 > n then n else end1)"

fun chunk_loop :: "'a list \<Rightarrow> int \<Rightarrow> int list \<Rightarrow> int \<Rightarrow> 'a list list" where
  "chunk_loop xs whole [] offset = []"
| "chunk_loop xs whole (rate # rates) offset =
     (let e = chunk_end (int (length xs)) whole (rates = []) rate offset
      in slice offset e xs # chunk_loop xs whole rates e)"

definition split_chunks :: "'a list \<Rightarrow> int list \<Rightarrow> 'a list list" where
  "split_chunks xs rates = chunk_loop xs (sum_list (weights rates)) (weights rates) 0"

section \<open>Starting a job\<close>

definition is_worker_online :: "db \<Rightarrow> string \<Rightarrow> bool" where
  "is_worker_online d w = (case db_workers d w of None \<Rightarrow> False | Some r \<Rightarrow> wr_status r = ''online'')"

text \<open>\<open>ws\<close> enumerates the workers in the order the query returns them.\<close>

definition online_rates :: "string list \<Rightarrow> db \<Rightarrow> (string \<times> int) list" where
  "online_rates ws d =
     map (\<lambda>w. (w, case db_workers d w of None \<Rightarrow> 0 | Some r \<Rightarrow> wr_masscan_rate r)) (filter (is_worker_online d) ws)"

definition activate :: "string list \<Rightarrow> string \<Rightarrow> int list \<Rightarrow> string list \<Rightarrow> db \<Rightarrow> masscan_msg list \<times> db" where
  "activate ws job ports allCIDRs d =
     (let workers = online_rates ws d
      in if workers = [] then ([], d)
         else (map (\<lambda>(w, chunk). \<lparr>mm_job_id = job, mm_worker = w, mm_cidrs = chunk, mm_ports = ports, mm_max_rate = 0\<rparr>)
                 (zip (map fst workers) (split_chunks allCIDRs (map snd workers))),
               modify_job (\<lambda>j. j\<lparr>jr_total_workers := int (length workers), jr_status := ''running''\<rparr>) job d))"

text \<open>
  The goroutine of \<open>handleCreateJob\<close>: \<open>arrivals\<close> are the answers for the AS numbers,
  \<open>order\<close> the order of the map of prefixes.
\<close>

definition start_job ::
  "arrival list \<Rightarrow> string list \<Rightarrow> string list \<Rightarrow> string \<Rightarrow> int list \<Rightarrow> db \<Rightarrow> masscan_msg list \<times> db" where
  "start_job arrivals order ws job ports d =
     (case resolve_multiple arrivals of
        Inl _ \<Rightarrow> ([], modify_job (\<lambda>j. j\<lparr>jr_status := ''failed''\<rparr>) job d)
      | Inr prefixes \<Rightarrow> activate ws job ports (concat (entries order prefixes)) d)"

section \<open>The watchers\<close>

text \<open>The rows read at the start of a round; \<open>ids\<close> enumerates the jobs.\<close>

definition phase1_rows :: "string list \<Rightarrow> db \<Rightarrow> (string \<times> int \<times> int) list" where
  "phase1_rows ids d = List.map_filter (\<lambda>i. case db_jobs d i of
       None \<Rightarrow> None
     | Some j \<Rightarrow> if jr_status j = ''running'' \<and> jr_phase j = ''phase1''
                 then Some (i, jr_done_workers j, jr_total_workers j) else None) ids"

text \<open>One row: whether the workers are notified, and the tables.\<close>

definition phase1_row :: "schema \<Rightarrow> string \<times> int \<times> int \<Rightarrow> db \<Rightarrow> bool \<times> db" where
  "phase1_row sch = (\<lambda>(job, finished, whole) d.
     if finished > 0 \<and> finished \<ge> whole then
       (let d1 = populate_work_queue sch job d
        in (True, update_job_phase job ''phase2'' (count_queue (\<lambda>_. True) job d1) d1))
     else (False, d))"

text \<open>
  The crash recovery at the start of a round of the second watcher; \<open>ws\<close> enumerates the
  workers. \<open>NULL NOT IN\<close> a list is true only when the list is empty.
\<close>

definition recover_offline :: "string list \<Rightarrow> db \<Rightarrow> db" where
  "recover_offline ws d =
     update_queue (\<lambda>q. qr_status q = ''processing'' \<and>
       (case qr_worker q of
          None \<Rightarrow> filter (is_worker_online d) ws = []
        | Some w \<Rightarrow> w \<notin> set (filter (is_worker_online d) ws))) item_reset d"

definition phase2_rows :: "string list \<Rightarrow> db \<Rightarrow> string list" where
  "phase2_rows ids d = filter (\<lambda>i. case db_jobs d i of
       None \<Rightarrow> False | Some j \<Rightarrow> jr_status j = ''running'' \<and> jr_phase j \<in> {''phase2'', ''phase2b''}) ids"

definition unverified :: "result_row \<Rightarrow> bool" where
  "unverified r \<longleftrightarrow> rw_status r = ''tls-ok'' \<and> rw_colo r = []"

definition phase2_row :: "host list \<Rightarrow> string \<Rightarrow> db \<Rightarrow> db" where
  "phase2_row hs job d =
     (let undone = count_queue (\<lambda>q. qr_status q \<noteq> ''done'') job d;
          open_results = count_results hs unverified job d;
          verified = count_results hs (\<lambda>r. rw_status r = ''verified'') job d
      in if undone = 0 \<and> open_results > 0 then update_job_phase job ''phase2b'' (open_results + verified) d
         else if undone > 0 then d
         else let d1 = update_job_phase job ''done'' (count_queue (\<lambda>_. True) job d) d
              in d1\<lparr>db_results := (\<lambda>h. case db_results d1 h of
                     None \<Rightarrow> None
                   | Some r \<Rightarrow> if fst h = job \<and> rw_status r = ''tls-ok'' then None else Some r)\<rparr>)"

section \<open>The start of the program and the other requests\<close>

definition master_cleanup :: "db \<Rightarrow> db" where
  "master_cleanup d =
     (let d1 = d\<lparr>db_jobs := (\<lambda>i. map_option (\<lambda>j. if jr_status j = ''pending'' then j\<lparr>jr_status := ''cancelled''\<rparr> else j)
                   (db_jobs d i))\<rparr>
      in d1\<lparr>db_masscan := filter (\<lambda>h. case db_jobs d1 (fst h) of
               None \<Rightarrow> True | Some j \<Rightarrow> jr_status j = ''running'') (db_masscan d1)\<rparr>)"

text \<open>\<open>(phase, status, done, total)\<close> of \<open>handleJobStatus\<close>.\<close>

definition handle_job_status :: "host list \<Rightarrow> string \<Rightarrow> db \<Rightarrow> string \<times> string \<times> int \<times> int" where
  "handle_job_status hs job d =
     (let (finished, whole) = get_job_stats hs job d
      in (job_column jr_phase job d, job_column jr_status job d, finished, whole))"

definition sanitize_char :: "char \<Rightarrow> char" where
  "sanitize_char c = (if c \<in> set ''/:*?<>| '' \<or> c = CHR 0x5C \<or> c = CHR 0x22 then CHR ''_'' else c)"

definition sanitize_filename :: "string \<Rightarrow> string" where
  "sanitize_filename s = map sanitize_char s"

definition csv_filename :: "string \<Rightarrow> string \<Rightarrow> db \<Rightarrow> string" where
  "csv_filename date job d =
     (let name0 = job_column jr_name job d; name = (if name0 = [] then job else name0)
      in ''multiscan_'' @ sanitize_filename name @ ''_'' @ date @ ''.csv'')"

definition csv_line :: "host \<times> result_row \<Rightarrow> string" where
  "csv_line = (\<lambda>((job, ip, port), r).
     ip @ '','' @ fmt_d port @ '','' @ rw_colo r @ '','' @ rw_country r @ '','' @ rw_asn r @ '','' @
     fmt_d (rw_delay r) @ [CHR 0x0A])"

definition results_csv :: "host list \<Rightarrow> string \<Rightarrow> db \<Rightarrow> string" where
  "results_csv hs job d =
     ''ip,port,colo,country,asn,delay_ms'' @ [CHR 0x0A] @ concat (map csv_line (get_results hs job d))"

text \<open>The worker list: newest first, with the activity of the heartbeat or \<open>idle\<close>.\<close>

definition worker_activity :: "db \<Rightarrow> string \<Rightarrow> string" where
  "worker_activity d w = (case db_beats d w of
       None \<Rightarrow> ''idle'' | Some h \<Rightarrow> (case hr_activity h of None \<Rightarrow> ''idle'' | Some a \<Rightarrow> a))"

definition worker_list :: "string list \<Rightarrow> db \<Rightarrow> (string \<times> worker_row \<times> string) list" where
  "worker_list ws d = map (\<lambda>(w, r). (w, r, worker_activity d w))
     (sort_key (\<lambda>(w, r). - wr_last_seen r) (List.map_filter (\<lambda>w. map_option (Pair w) (db_workers d w)) ws))"

definition job_list :: "string list \<Rightarrow> db \<Rightarrow> (string \<times> job_row \<times> int \<times> int) list" where
  "job_list ids d = map (\<lambda>(i, j). (i, j, count_queue (\<lambda>q. qr_status q \<noteq> ''pending'') i d, count_queue (\<lambda>_. True) i d))
     (take 50 (sort_key (\<lambda>(i, j). - jr_created_at j) (List.map_filter (\<lambda>i. map_option (Pair i) (db_jobs d i)) ids)))"

record stats =
  st_running_jobs :: int
  st_done_jobs :: int
  st_total_ips :: int
  st_scanned :: int
  st_pending :: int
  st_cf_hits :: int
  st_verified :: int

text \<open>Sums over the jobs of an enumeration that satisfy a condition.\<close>

definition sum_jobs :: "string list \<Rightarrow> (job_row \<Rightarrow> bool) \<Rightarrow> (string \<Rightarrow> job_row \<Rightarrow> int) \<Rightarrow> db \<Rightarrow> int" where
  "sum_jobs ids p f d = sum_list (map (\<lambda>i. case db_jobs d i of
       None \<Rightarrow> 0 | Some j \<Rightarrow> if p j then f i j else 0) ids)"

definition is_running :: "job_row \<Rightarrow> bool" where
  "is_running j \<longleftrightarrow> jr_status j = ''running''"

definition handle_stats :: "string list \<Rightarrow> host list \<Rightarrow> db \<Rightarrow> stats" where
  "handle_stats ids hs d =
     (let running = sum_jobs ids is_running (\<lambda>_ _. 1) d;
          finished = sum_jobs ids (\<lambda>j. jr_status j \<notin> {''running'', ''pending''}) (\<lambda>_ _. 1) d
      in if running > 0 then
           (let whole = sum_jobs ids is_running (\<lambda>_ j. jr_total_items j) d;
                scanned = sum_jobs ids (\<lambda>j. is_running j \<and> jr_phase j = ''phase1'')
                            (\<lambda>i _. int (length (filter (\<lambda>h. fst h = i) (db_masscan d)))) d +
                          sum_jobs ids (\<lambda>j. is_running j \<and> jr_phase j \<noteq> ''phase1'')
                            (\<lambda>i _. count_queue (\<lambda>_. True) i d) d;
                pending = sum_jobs ids is_running (\<lambda>i _. count_queue (\<lambda>q. qr_status q = ''pending'') i d) d
            in \<lparr>st_running_jobs = running, st_done_jobs = finished, st_total_ips = whole, st_scanned = scanned - pending,
                st_pending = pending,
                st_cf_hits = sum_jobs ids is_running (\<lambda>i _. count_results hs (\<lambda>r. rw_status r = ''tls-ok'') i d) d,
                st_verified = sum_jobs ids is_running (\<lambda>i _. count_results hs (\<lambda>r. rw_status r = ''verified'') i d) d\<rparr>)
         else \<lparr>st_running_jobs = running, st_done_jobs = finished, st_total_ips = 0, st_scanned = 0, st_pending = 0,
                st_cf_hits = 0, st_verified = 0\<rparr>)"

text \<open>
  The event stream: every client has a channel of ten; a ping is dropped when it is full. Each
  ping a client reads is written as a heartbeat event.
\<close>

type_synonym sse_clients = "nat \<rightharpoonup> string list"

definition sse_ping :: "sse_clients \<Rightarrow> sse_clients" where
  "sse_ping clients = (\<lambda>c. map_option (\<lambda>q. if length q < 10 then q @ [''ping''] else q) (clients c))"

definition sse_connect :: "nat \<Rightarrow> sse_clients \<Rightarrow> sse_clients" where
  "sse_connect c clients = clients(c \<mapsto> [])"

definition sse_gone :: "nat \<Rightarrow> sse_clients \<Rightarrow> sse_clients" where
  "sse_gone c clients = clients(c := None)"

definition sse_frame :: string where
  "sse_frame = ''data: {'' @ [CHR 0x22] @ ''type'' @ [CHR 0x22] @ '':'' @ [CHR 0x22] @ ''heartbeat'' @ [CHR 0x22] @ ''}'' @
     [CHR 0x0A, CHR 0x0A]"

definition sse_serve :: "nat \<Rightarrow> sse_clients \<Rightarrow> string option \<times> sse_clients" where
  "sse_serve c clients =
     (case clients c of
        Some (msg # q) \<Rightarrow> (if msg = ''ping'' then Some sse_frame else None, clients(c \<mapsto> q))
      | _ \<Rightarrow> (None, clients))"


section \<open>The split\<close>

lemma slice_append: "0 \<le> a \<Longrightarrow> a \<le> b \<Longrightarrow> slice a b xs @ drop (nat b) xs = drop (nat a) xs"
proof -
  assume ab: "0 \<le> a" "a \<le> b"
  have "drop (nat b) xs = drop (nat (b - a)) (drop (nat a) xs)"
    using ab by (simp add: nat_diff_distrib)
  then show ?thesis unfolding slice_def by (metis append_take_drop_id)
qed

lemma length_slice: "0 \<le> a \<Longrightarrow> a \<le> b \<Longrightarrow> b \<le> int (length xs) \<Longrightarrow> int (length (slice a b xs)) = b - a"
  by (auto simp: slice_def)

lemma length_chunk_loop [simp]: "length (chunk_loop xs whole rates offset) = length rates"
  by (induction rates arbitrary: offset) (simp_all add: Let_def)

lemma chunk_end_eq:
  "chunk_end n whole last_worker rate offset =
     min n (offset + max 1 (if last_worker then n - offset else go_div (n * rate) whole))"
  by (simp add: chunk_end_def Let_def min_def max_def)

lemma chunk_end_bounds:
  "0 \<le> offset \<Longrightarrow> offset \<le> n \<Longrightarrow>
   offset \<le> chunk_end n whole l rate offset \<and> chunk_end n whole l rate offset \<le> n \<and> 0 \<le> chunk_end n whole l rate offset"
  by (auto simp: chunk_end_eq)

lemma chunk_end_last: "offset \<le> n \<Longrightarrow> chunk_end n whole True rate offset = n"
  by (simp add: chunk_end_eq)

lemma concat_chunk_loop:
  "rates \<noteq> [] \<Longrightarrow> 0 \<le> offset \<Longrightarrow> offset \<le> int (length xs) \<Longrightarrow>
   concat (chunk_loop xs whole rates offset) = drop (nat offset) xs"
proof (induction rates arbitrary: offset)
  case (Cons rate rates)
  let ?e = "chunk_end (int (length xs)) whole (rates = []) rate offset"
  note b = chunk_end_bounds [OF Cons.prems(2,3), of whole "rates = []" rate]
  show ?case
  proof (cases "rates = []")
    case True
    then show ?thesis
      using Cons.prems slice_append [OF Cons.prems(2,3), of xs] by (simp add: Let_def chunk_end_last)
  next
    case False
    then show ?thesis
      using Cons.IH [OF False, of "?e"] b slice_append [OF Cons.prems(2), of ?e xs]
      by (simp add: Let_def)
  qed
qed simp

lemma chunk_length_le:
  "0 \<le> offset \<Longrightarrow> offset \<le> int (length xs) \<Longrightarrow> Suc i < length rates \<Longrightarrow>
   int (length (chunk_loop xs whole rates offset ! i)) \<le> max 1 (go_div (int (length xs) * rates ! i) whole)"
proof (induction rates arbitrary: offset i)
  case (Cons rate rates)
  let ?e = "chunk_end (int (length xs)) whole (rates = []) rate offset"
  note b = chunk_end_bounds [OF Cons.prems(1,2), of whole "rates = []" rate]
  show ?case
  proof (cases i)
    case 0
    then show ?thesis
      using Cons.prems b length_slice [OF Cons.prems(1), of "?e" xs]
      by (auto simp: Let_def chunk_end_eq)
  next
    case (Suc k)
    then show ?thesis
      using Cons.IH [of "?e" k] Cons.prems b by (simp add: Let_def)
  qed
qed simp

text \<open>When every share is at least one, every worker but the last gets exactly its share.\<close>

lemma chunk_length_eq:
  "0 \<le> offset \<Longrightarrow> offset + sum_list (map (\<lambda>r. go_div (int (length xs) * r) whole) rates) \<le> int (length xs) \<Longrightarrow>
   \<forall>r \<in> set rates. 1 \<le> go_div (int (length xs) * r) whole \<Longrightarrow> Suc i < length rates \<Longrightarrow>
   int (length (chunk_loop xs whole rates offset ! i)) = go_div (int (length xs) * rates ! i) whole"
proof (induction rates arbitrary: offset i)
  case (Cons rate rates)
  let ?c = "go_div (int (length xs) * rate) whole"
  have ne: "rates \<noteq> []" using Cons.prems(4) by auto
  have "0 \<le> sum_list (map (\<lambda>r. go_div (int (length xs) * r) whole) rates)"
    using Cons.prems(3) by (intro sum_list_nonneg) auto
  then have e: "chunk_end (int (length xs)) whole (rates = []) rate offset = offset + ?c"
    using Cons.prems(2,3) ne by (simp add: chunk_end_eq)
  show ?case
  proof (cases i)
    case 0
    then show ?thesis
      using Cons.prems e \<open>0 \<le> sum_list _\<close> length_slice [OF Cons.prems(1), of "offset + ?c" xs]
      by (simp add: Let_def)
  next
    case (Suc k)
    then show ?thesis
      using Cons.IH [of "offset + ?c" k] Cons.prems e by (simp add: Let_def)
  qed
qed simp

lemma sum_div_le:
  assumes "0 < w" "0 \<le> (n :: int)" "\<forall>r \<in> set rs. 0 \<le> r"
  shows "sum_list (map (\<lambda>r. go_div (n * r) w) rs) * w \<le> n * sum_list rs"
  using assms(3)
proof (induction rs)
  case (Cons r rs)
  have "go_div (n * r) w * w \<le> n * r"
  proof -
    have "n * r div w * w = n * r - n * r mod w" by (rule minus_mod_eq_div_mult [symmetric])
    then have "n * r div w * w \<le> n * r" using pos_mod_sign [OF assms(1), of "n * r"] by linarith
    moreover have "go_div (n * r) w = n * r div w"
      using assms(1,2) Cons.prems by (intro go_div_nonneg) auto
    ultimately show ?thesis by (simp only:)
  qed
  then show ?case using Cons by (simp add: algebra_simps)
qed simp

lemma weights_facts:
  assumes "rates \<noteq> []" "\<forall>r \<in> set rates. 0 \<le> r"
  shows "length (weights rates) = length rates" "\<forall>r \<in> set (weights rates). 0 \<le> r" "0 < sum_list (weights rates)"
proof -
  show "length (weights rates) = length rates" "\<forall>r \<in> set (weights rates). 0 \<le> r"
    using assms by (auto simp: weights_def)
  have "0 \<le> sum_list rates" using assms(2) by (intro sum_list_nonneg) auto
  then show "0 < sum_list (weights rates)"
    using assms(1) by (auto simp: weights_def sum_list_triv)
qed


text \<open>What a start gives each worker.\<close>

lemma split_chunks_concat: "rates \<noteq> [] \<Longrightarrow> concat (split_chunks xs rates) = xs"
  using concat_chunk_loop [of "weights rates" 0 xs "sum_list (weights rates)"]
  by (auto simp: split_chunks_def weights_def)

lemma length_split_chunks [simp]: "length (split_chunks xs rates) = length rates"
  by (simp add: split_chunks_def weights_def)

lemma go_div_mult_nonneg: "0 \<le> n \<Longrightarrow> 0 \<le> r \<Longrightarrow> 0 < w \<Longrightarrow> go_div (n * r) w = n * r div w"
  by (simp add: go_div_nonneg)

lemma split_chunks_length:
  assumes "\<forall>r \<in> set rates. 0 \<le> r" "Suc i < length rates"
  shows "int (length (split_chunks xs rates ! i)) \<le>
      max 1 (int (length xs) * weights rates ! i div sum_list (weights rates))"
    and "\<forall>r \<in> set (weights rates). sum_list (weights rates) \<le> int (length xs) * r \<Longrightarrow>
      int (length (split_chunks xs rates ! i)) = int (length xs) * weights rates ! i div sum_list (weights rates)"
proof -
  have "rates \<noteq> []" using assms(2) by auto
  note w = weights_facts [OF this assms(1)]
  have i: "Suc i < length (weights rates)" using assms(2) w(1) by simp
  then have "weights rates ! i \<in> set (weights rates)" by simp
  then have d: "go_div (int (length xs) * weights rates ! i) (sum_list (weights rates)) =
      int (length xs) * weights rates ! i div sum_list (weights rates)"
    using w(2,3) by (intro go_div_mult_nonneg) auto
  show "int (length (split_chunks xs rates ! i)) \<le>
      max 1 (int (length xs) * weights rates ! i div sum_list (weights rates))"
    using chunk_length_le [of 0 xs i "weights rates" "sum_list (weights rates)"] i d by (simp add: split_chunks_def)
  assume big: "\<forall>r \<in> set (weights rates). sum_list (weights rates) \<le> int (length xs) * r"
  have "sum_list (map (\<lambda>r. go_div (int (length xs) * r) (sum_list (weights rates))) (weights rates)) *
      sum_list (weights rates) \<le> int (length xs) * sum_list (weights rates)"
    using w(2,3) by (intro sum_div_le) auto
  then have "sum_list (map (\<lambda>r. go_div (int (length xs) * r) (sum_list (weights rates))) (weights rates)) \<le> int (length xs)"
    using w(3) mult_right_le_imp_le by blast
  moreover have "1 \<le> go_div (int (length xs) * r) (sum_list (weights rates))" if "r \<in> set (weights rates)" for r
  proof -
    have "1 \<le> int (length xs) * r div sum_list (weights rates)"
      using big that w(3) pos_imp_zdiv_pos_iff [of "sum_list (weights rates)" "int (length xs) * r"] by fastforce
    then show ?thesis using that w(2,3) by (simp add: go_div_mult_nonneg)
  qed
  ultimately show "int (length (split_chunks xs rates ! i)) = int (length xs) * weights rates ! i div sum_list (weights rates)"
    using chunk_length_eq [of 0 xs "sum_list (weights rates)" "weights rates" i] i d by (simp add: split_chunks_def)
qed

section \<open>Properties\<close>

text \<open>
  C16. Starting a job with workers online sends every online worker one message, in order, for
  this job and its ports; the CIDRs of the messages, one after the other, are exactly the
  resolved CIDRs. Every worker but the last gets at most its share by rate, or one CIDR, and
  exactly its share when all shares are at least one. The job is set running with as many
  workers as messages, whatever its status was: a job cancelled in the meantime is running again.
\<close>

theorem activate_distributes:
  assumes "activate ws job ports cidrs d = (msgs, d')" and "\<exists>w \<in> set ws. is_worker_online d w"
    and "\<forall>w r. db_workers d w = Some r \<longrightarrow> 0 \<le> wr_masscan_rate r"
  shows "map mm_worker msgs = filter (is_worker_online d) ws \<and> concat (map mm_cidrs msgs) = cidrs \<and>
    (\<forall>m \<in> set msgs. mm_job_id m = job \<and> mm_ports m = ports) \<and>
    (\<forall>j. db_jobs d job = Some j \<longrightarrow> db_jobs d' job =
       Some (j\<lparr>jr_total_workers := int (length msgs), jr_status := ''running''\<rparr>)) \<and>
    (\<forall>i. Suc i < length msgs \<longrightarrow>
       (let w = weights (map snd (online_rates ws d)); share = int (length cidrs) * w ! i div sum_list w
        in int (length (mm_cidrs (msgs ! i))) \<le> max 1 share \<and>
           ((\<forall>r \<in> set w. sum_list w \<le> int (length cidrs) * r) \<longrightarrow> int (length (mm_cidrs (msgs ! i))) = share)))"
proof -
  let ?ws = "online_rates ws d"
  have ne: "?ws \<noteq> []" using assms(2) by (auto simp: online_rates_def filter_empty_conv)
  have msgs: "msgs = map (\<lambda>(w, chunk). \<lparr>mm_job_id = job, mm_worker = w, mm_cidrs = chunk, mm_ports = ports, mm_max_rate = 0\<rparr>)
      (zip (map fst ?ws) (split_chunks cidrs (map snd ?ws)))"
    and d': "d' = modify_job (\<lambda>j. j\<lparr>jr_total_workers := int (length ?ws), jr_status := ''running''\<rparr>) job d"
    using assms(1) ne by (auto simp: activate_def Let_def)
  have len: "length msgs = length ?ws" by (simp add: msgs)
  have workers: "map mm_worker msgs = map fst ?ws"
    unfolding msgs by (simp add: comp_def case_prod_unfold map_fst_zip)
  have cidrs': "map mm_cidrs msgs = split_chunks cidrs (map snd ?ws)"
    unfolding msgs by (simp add: comp_def case_prod_unfold map_snd_zip)
  have rates: "\<forall>r \<in> set (map snd ?ws). 0 \<le> r"
    using assms(3) by (auto simp: online_rates_def split: option.split)
  have nth: "mm_cidrs (msgs ! i) = split_chunks cidrs (map snd ?ws) ! i" if "Suc i < length msgs" for i
    using that cidrs' by (metis Suc_lessD nth_map)
  have "map fst ?ws = filter (is_worker_online d) ws" by (simp add: online_rates_def comp_def)
  moreover have "concat (map mm_cidrs msgs) = cidrs"
    unfolding cidrs' using ne by (intro split_chunks_concat) simp
  moreover have "\<forall>m \<in> set msgs. mm_job_id m = job \<and> mm_ports m = ports" by (auto simp: msgs)
  moreover have "\<forall>j. db_jobs d job = Some j \<longrightarrow> db_jobs d' job =
      Some (j\<lparr>jr_total_workers := int (length msgs), jr_status := ''running''\<rparr>)"
    by (simp add: d' len modify_job_def)
  moreover have "let w = weights (map snd ?ws); share = int (length cidrs) * w ! i div sum_list w
        in int (length (mm_cidrs (msgs ! i))) \<le> max 1 share \<and>
           ((\<forall>r \<in> set w. sum_list w \<le> int (length cidrs) * r) \<longrightarrow> int (length (mm_cidrs (msgs ! i))) = share)"
    if "Suc i < length msgs" for i
  proof -
    have "Suc i < length (map snd ?ws)" using that len by simp
    then show ?thesis
      unfolding Let_def nth [OF that] using split_chunks_length [OF rates, of i cidrs] by blast
  qed
  ultimately show ?thesis using workers by presburger
qed

text \<open>Two workers online, the one three times as fast, and four prefixes.\<close>

definition demo_worker_row :: "int \<Rightarrow> worker_row" where
  "demo_worker_row rate =
     \<lparr>wr_name = ''w'', wr_cpu_count = 2, wr_memory_mb = 1024, wr_max_concurrent = 500, wr_masscan_rate = rate,
      wr_last_seen = 0, wr_status = ''online''\<rparr>"

definition demo_master_db :: db where
  "demo_master_db =
     \<lparr>db_jobs = [''j'' \<mapsto> \<lparr>jr_name = ''n'', jr_mode = ''tls'', jr_asns = ''AS1'', jr_ports = ''443'', jr_status = ''pending'',
                  jr_phase = ''phase1'', jr_total_workers = 0, jr_done_workers = 0, jr_total_items = 0, jr_created_at = 0\<rparr>],
      db_workers = [''w1'' \<mapsto> demo_worker_row 3000, ''w2'' \<mapsto> demo_worker_row 1000],
      db_beats = Map.empty, db_masscan = [], db_queue = [], db_next = 0, db_results = Map.empty\<rparr>"

theorem activate_distributes_witness:
  "map (\<lambda>m. (mm_worker m, length (mm_cidrs m)))
     (fst (activate [''w1'', ''w2''] ''j'' [443] [''a'', ''b'', ''c'', ''e''] demo_master_db)) = [(''w1'', 3), (''w2'', 1)]"
proof -
  let ?run = "activate [''w1'', ''w2''] ''j'' [443] [''a'', ''b'', ''c'', ''e''] demo_master_db"
  have on: "\<exists>w \<in> set [''w1'', ''w2'']. is_worker_online demo_master_db w"
    by (simp add: is_worker_online_def demo_master_db_def demo_worker_row_def)
  have rates: "\<forall>w r. db_workers demo_master_db w = Some r \<longrightarrow> 0 \<le> wr_masscan_rate r"
    by (simp add: demo_master_db_def demo_worker_row_def)
  have ws: "online_rates [''w1'', ''w2''] demo_master_db = [(''w1'', 3000), (''w2'', 1000)]"
    by (simp add: online_rates_def is_worker_online_def demo_master_db_def demo_worker_row_def)
  have fo: "filter (is_worker_online demo_master_db) [''w1'', ''w2''] = [''w1'', ''w2'']"
    by (simp add: is_worker_online_def demo_master_db_def demo_worker_row_def)
  obtain ms d' where run: "?run = (ms, d')" by fastforce
  note p = activate_distributes [OF run on rates, unfolded Let_def ws]
  have w: "map mm_worker ms = [''w1'', ''w2'']" and c: "concat (map mm_cidrs ms) = [''a'', ''b'', ''c'', ''e'']"
    and bound: "Suc 0 < length ms \<longrightarrow> (\<forall>r \<in> set (weights (map snd [(''w1'', 3000), (''w2'', 1000)])).
      sum_list (weights (map snd [(''w1'', 3000), (''w2'', 1000)])) \<le> int (length [''a'', ''b'', ''c'', ''e'']) * r) \<longrightarrow>
      int (length (mm_cidrs (ms ! 0))) = int (length [''a'', ''b'', ''c'', ''e'']) *
        weights (map snd [(''w1'', 3000), (''w2'', 1000)]) ! 0 div sum_list (weights (map snd [(''w1'', 3000), (''w2'', 1000)]))"
    using p by (simp_all only: fo, blast+)
  obtain m1 m2 where m: "ms = [m1, m2]" "mm_worker m1 = ''w1''" "mm_worker m2 = ''w2''"
    using w by (auto simp: map_eq_Cons_conv)
  have "length (mm_cidrs m1) = 3" using bound by (simp add: m(1) weights_def)
  moreover have "length (mm_cidrs m1) + length (mm_cidrs m2) = 4"
    using arg_cong [OF c, of length] by (simp add: m(1))
  ultimately show ?thesis by (simp add: run m)
qed

end
