(* ===== verification/WorkerV2.thy ===== *)
theory WorkerV2
  imports MasterV2 Masscan Verifier Scanner
    "HOL-Library.Char_ord" "HOL-Library.List_Lexorder" "HOL-Library.Product_Lexorder"
begin

text \<open>
  The worker of the second version (\<open>v2/cmd/worker/main.go\<close>): the probe of the masscan rate and
  the hardware detection, the handler of a masscan message (phase 1), and the two loops of
  phase 2 (TLS checks of queue items, verification of the hits) over the tables of
  \<open>PgStore\<close>. Files, network interfaces and masscan's packet counts are parameters.
\<close>

section \<open>The network interface\<close>

text \<open>
  \<open>local\<close> is the address of the outgoing connection, \<open>ifaces\<close> the interfaces with their
  addresses, \<open>exists\<close> tells which interface has a packet counter.
\<close>

fun iface_with :: "'a \<Rightarrow> (string \<times> 'a list) list \<Rightarrow> string option" where
  "iface_with a [] = None"
| "iface_with a ((name, addrs) # ifaces) = (if a \<in> set addrs then Some name else iface_with a ifaces)"

fun first_existing :: "(string \<Rightarrow> bool) \<Rightarrow> string list \<Rightarrow> string" where
  "first_existing exists [] = ''eth0''"
| "first_existing exists (n # ns) = (if exists n then n else first_existing exists ns)"

definition find_iface :: "'a option \<Rightarrow> (string \<times> 'a list) list \<Rightarrow> (string \<Rightarrow> bool) \<Rightarrow> string" where
  "find_iface local_addr ifaces exists =
     (case (case local_addr of None \<Rightarrow> None | Some a \<Rightarrow> iface_with a ifaces) of
        Some name \<Rightarrow> name
      | None \<Rightarrow> first_existing exists [''eth0'', ''ens3'', ''enp0s3'', ''enp1s0'', ''ens5'', ''enp0s1''])"

text \<open>\<open>content\<close>: the text of the counter file, if it can be read.\<close>

definition read_tx_packets :: "string option \<Rightarrow> int option" where
  "read_tx_packets content = (case content of None \<Rightarrow> None | Some s \<Rightarrow> atoi (trim_space s))"

section \<open>The probe\<close>

text \<open>
  Round \<open>k\<close> of the probe: the counter before (an error ends the probe), whether masscan could
  be started (killing a process that was never started is a nil dereference), and the counter
  five seconds later (zero when it cannot be read).

  The ratio \<open>(after - before) / 5 / rate\<close> is computed in \<open>float64\<close>; at the rates tried, 1000
  times a power of two, the comparisons with 0.7 and 0.3 come out as over the integers, and so
  does the truncated product with 0.8.
\<close>

record probe_env =
  tx_before :: "nat \<Rightarrow> int option"
  masscan_starts :: "nat \<Rightarrow> bool"
  tx_after :: "nat \<Rightarrow> int"

function probe_loop :: "probe_env \<Rightarrow> nat \<Rightarrow> int \<Rightarrow> nat \<Rightarrow> int outcome" where
  "probe_loop env k best 0 = Returns best"
| "probe_loop env k best (Suc r) =
     (let rate = Suc r
      in if rate > 200000 then Returns best
         else case tx_before env k of
           None \<Rightarrow> Returns best
         | Some before \<Rightarrow>
             if \<not> masscan_starts env k then Panics best
             else let sent = tx_after env k - before
                  in if 10 * sent \<ge> 35 * int rate then probe_loop env (Suc k) (int rate) (rate * 2)
                     else if 10 * sent \<ge> 15 * int rate then Returns (max 2000 (go_div (4 * sent) 25))
                     else Returns best)"
  by pat_completeness auto
termination by (relation "measure (\<lambda>(env, k, best, rate). 400001 - rate)") auto

definition probe_masscan_rate :: "probe_env \<Rightarrow> int outcome" where
  "probe_masscan_rate env = probe_loop env 0 2000 1000"

text \<open>
  \<open>autoDetect\<close>: \<open>kb\<close> is what the scan of \<open>/proc/meminfo\<close> leaves when the file can be opened,
  \<open>cached\<close> the rate in the cache file when it can be read and decoded.
\<close>

definition auto_detect ::
  "int \<Rightarrow> int option \<Rightarrow> bool \<Rightarrow> int option \<Rightarrow> probe_env \<Rightarrow> (int \<times> int \<times> int \<times> int \<times> int) outcome" where
  "auto_detect ncpu kb reprobe cached env =
     (let mem = (case kb of None \<Rightarrow> 512 | Some n \<Rightarrow> go_div n 1024);
          rate0 = (if reprobe then 2000 else case cached of None \<Rightarrow> 2000 | Some r \<Rightarrow> if r > 0 then r else 2000)
      in if rate0 = 2000 \<or> reprobe then
           (case probe_masscan_rate env of
              Returns rate \<Rightarrow> Returns (ncpu, mem, 500, 32, rate)
            | Panics rate \<Rightarrow> Panics (ncpu, mem, 500, 32, rate))
         else Returns (ncpu, mem, 500, 32, rate0))"

section \<open>Phase 1\<close>

text \<open>
  The loop over the messages of \<open>RunStreaming\<close>. An error of the insertion is only logged;
  \<open>exec i\<close> is what happens to the statements of message \<open>i\<close>.
\<close>

fun phase1_loop ::
  "schema \<Rightarrow> (nat \<Rightarrow> nat \<Rightarrow> nat \<Rightarrow> exec_result) \<Rightarrow> string \<Rightarrow> nat \<Rightarrow> stream_msg list \<Rightarrow> db \<Rightarrow> db" where
  "phase1_loop sch exec job i [] d = d"
| "phase1_loop sch exec job i (StreamDone # msgs) d = d"
| "phase1_loop sch exec job i (Batch results # msgs) d =
     phase1_loop sch exec job (Suc i) msgs
       (case results of
          [] \<Rightarrow> d
        | r # _ \<Rightarrow> snd (insert_masscan_results sch (exec i) job (map mr_ip results) (mr_port r) d))"

definition phase1_config :: "masscan_msg \<Rightarrow> int \<Rightarrow> masscan_config" where
  "phase1_config msg masscanRate =
     \<lparr>mc_rate = (if mm_max_rate msg = 0 then masscanRate else mm_max_rate msg), mc_ports = mm_ports msg,
      mc_cidrs = mm_cidrs msg, mc_ips = [], mc_timeout = 0\<rparr>"

definition handle_masscan_msg ::
  "schema \<Rightarrow> (nat \<Rightarrow> nat \<Rightarrow> nat \<Rightarrow> exec_result) \<Rightarrow> os_env \<Rightarrow> string \<Rightarrow> int \<Rightarrow> masscan_msg \<Rightarrow> stream_msg list \<Rightarrow> db \<Rightarrow> db" where
  "handle_masscan_msg sch exec os w masscanRate msg stream d =
     (let d1 = set_activity w ''masscan'' d;
          d2 = (case run_streaming_start os (phase1_config msg masscanRate) of
                  Some e \<Rightarrow> d1
                | None \<Rightarrow> phase1_loop sch exec (mm_job_id msg) 0 stream d1)
      in set_activity w ''idle'' (mark_phase1_done (mm_job_id msg) d2))"

section \<open>Phase 2a: checking queue items\<close>

text \<open>
  The checks of one batch, in the order in which they finish: the buffer of scanned items, the
  number of hits and the tables. The buffer is flushed at 250 items.
\<close>

definition flush_scanned :: "string \<Rightarrow> (string \<times> int) list \<Rightarrow> db \<Rightarrow> db" where
  "flush_scanned job buf d = mark_work_scanned_batch True job buf d"

definition scan_item ::
  "(string \<Rightarrow> int \<Rightarrow> scan_result) \<Rightarrow> string \<Rightarrow> work_item \<Rightarrow> (string \<times> int) list \<times> nat \<times> db \<Rightarrow>
   (string \<times> int) list \<times> nat \<times> db" where
  "scan_item check job = (\<lambda>(i, ip, port) (buf, hits, d).
     (let r = check ip port;
          (hits1, d1) = (if sr_is_cf r
                         then (Suc hits, insert_result job ip port ''tls-ok'' [] [] [] (sr_delay r) [] [] d)
                         else (hits, d));
          buf1 = buf @ [(ip, port)]
      in if length buf1 \<ge> 250 then ([], hits1, flush_scanned job buf1 d1) else (buf1, hits1, d1)))"

definition scan_batch ::
  "(string \<Rightarrow> int \<Rightarrow> scan_result) \<Rightarrow> string \<Rightarrow> work_item list \<Rightarrow> nat \<Rightarrow> db \<Rightarrow> nat \<times> db" where
  "scan_batch check job items hits d =
     (let (buf, hits1, d1) = fold (scan_item check job) items ([], hits, d) in (hits1, flush_scanned job buf d1))"

text \<open>
  The loop, with \<open>fuel\<close> rounds (\<open>None\<close>: they do not suffice). In round \<open>k\<close> the tables first
  change by \<open>others k\<close>, what everyone else does meanwhile; \<open>pick k\<close> is the set of items the
  database selects and \<open>finish k\<close> the order in which the checks finish. \<open>Some None\<close> means that
  the job was found cancelled.
\<close>

record phase2_env =
  p2_check :: "string \<Rightarrow> int \<Rightarrow> scan_result"
  p2_others :: "nat \<Rightarrow> db \<Rightarrow> db"
  p2_pick :: "nat \<Rightarrow> db \<Rightarrow> nat set"
  p2_finish :: "nat \<Rightarrow> work_item list \<Rightarrow> work_item list"
  p2_verify :: "string \<Rightarrow> int \<Rightarrow> verify_error + check_result option"
  p2_hits :: "nat \<Rightarrow> db \<Rightarrow> host list"

fun phase2a :: "nat \<Rightarrow> phase2_env \<Rightarrow> string \<Rightarrow> string \<Rightarrow> nat \<Rightarrow> nat \<Rightarrow> db \<Rightarrow> (nat option \<times> db) option" where
  "phase2a 0 env w job k hits d = None"
| "phase2a (Suc fuel) env w job k hits d0 =
     (let d = p2_others env k d0
      in if is_job_cancelled job d then Some (None, d)
         else let (items, d1) = fetch_work_batch (p2_pick env k d) w d
              in if items = [] then
                   (if count_queue (\<lambda>q. qr_status q \<noteq> ''done'') job d1 > 0
                    then phase2a fuel env w job (Suc k) hits d1
                    else Some (Some hits, d1))
                 else let (hits1, d2) = scan_batch (p2_check env) job (p2_finish env k items) hits d1
                      in phase2a fuel env w job (Suc k) hits1 d2)"

section \<open>Phase 2b: verifying the hits\<close>

definition set_colo :: "string \<Rightarrow> string \<Rightarrow> string \<Rightarrow> int \<Rightarrow> db \<Rightarrow> db" where
  "set_colo colo job ip port d =
     d\<lparr>db_results := (db_results d)((job, ip, port) := map_option (\<lambda>r. if rw_status r = ''tls-ok'' then r\<lparr>rw_colo := colo\<rparr> else r)
         (db_results d (job, ip, port)))\<rparr>"

text \<open>One verification; \<open>delay\<close> is the delay read with the hit.\<close>

definition verify_hit ::
  "(string \<Rightarrow> int \<Rightarrow> verify_error + check_result option) \<Rightarrow> string \<Rightarrow> string \<times> int \<times> int \<Rightarrow> db \<Rightarrow> db" where
  "verify_hit ver job = (\<lambda>(ip, port, delay) d.
     (case ver ip port of
        Inl e \<Rightarrow> set_colo ''error'' job ip port d
      | Inr None \<Rightarrow> set_colo ''fail'' job ip port d
      | Inr (Some c) \<Rightarrow>
          if \<not> cr_success c then set_colo ''fail'' job ip port d
          else insert_result job ip port ''verified'' (cr_colo c) (cr_country c) (cr_asn c) delay [] [] d))"

text \<open>\<open>p2_hits\<close> gives the unverified hits the query returns, at most twice the concurrency.\<close>

definition hit_row :: "db \<Rightarrow> host \<Rightarrow> string \<times> int \<times> int" where
  "hit_row d = (\<lambda>(job, ip, port). (ip, port, case db_results d (job, ip, port) of None \<Rightarrow> 0 | Some r \<Rightarrow> rw_delay r))"

definition may_select :: "string \<Rightarrow> nat \<Rightarrow> host list \<Rightarrow> db \<Rightarrow> bool" where
  "may_select job limit hs d \<longleftrightarrow> distinct hs \<and>
     (let open_hosts = {h. fst h = job \<and> (\<exists>r. db_results d h = Some r \<and> unverified r)}
      in set hs \<subseteq> open_hosts \<and> length hs = min limit (card open_hosts))"

fun phase2b :: "nat \<Rightarrow> phase2_env \<Rightarrow> string \<Rightarrow> nat \<Rightarrow> db \<Rightarrow> db option" where
  "phase2b 0 env job k d = None"
| "phase2b (Suc fuel) env job k d0 =
     (let d = p2_others env k d0
      in if is_job_cancelled job d then Some d
         else let hs = p2_hits env k d
              in if hs = [] then Some d
                 else phase2b fuel env job (Suc k) (fold (verify_hit (p2_verify env) job) (map (hit_row d) hs) d))"

text \<open>\<open>processPhase2\<close>; \<open>hs\<close> enumerates the keys of the results.\<close>

definition process_phase2 :: "nat \<Rightarrow> phase2_env \<Rightarrow> string \<Rightarrow> string \<Rightarrow> (db \<Rightarrow> host list) \<Rightarrow> db \<Rightarrow> db option" where
  "process_phase2 fuel env w job keys d =
     (case phase2a fuel env w job 0 0 (set_activity w ''scanning'' d) of
        None \<Rightarrow> None
      | Some (None, d1) \<Rightarrow> Some d1
      | Some (Some hits, d1) \<Rightarrow>
          if hits = 0 \<and> count_results (keys d1) unverified job d1 = 0 then Some (set_activity w ''idle'' d1)
          else (case phase2b fuel env job 0 (set_activity w ''verifying'' d1) of
                  None \<Rightarrow> None
                | Some d2 \<Rightarrow> Some (if is_job_cancelled job d2 then d2 else set_activity w ''idle'' d2)))"


section \<open>Which jobs a worker takes up\<close>

text \<open>
  A worker process takes up the second phase of a job once: \<open>started\<close> is the map
  \<open>phase2Jobs\<close>, from which nothing is ever removed.
\<close>

definition trigger_phase2 :: "string \<Rightarrow> string set \<Rightarrow> bool \<times> string set" where
  "trigger_phase2 jid started = (jid \<notin> started, insert jid started)"

fun trigger_all :: "string list \<Rightarrow> string set \<Rightarrow> string list \<times> string set" where
  "trigger_all [] started = ([], started)"
| "trigger_all (jid # jids) started =
     (let (fresh, started1) = trigger_phase2 jid started; (run, started2) = trigger_all jids started1
      in ((if fresh then [jid] else []) @ run, started2))"

text \<open>The subject of the broker's message; a job without an identifier is skipped.\<close>

definition on_phase2_msg :: "string \<Rightarrow> string set \<Rightarrow> string list \<times> string set" where
  "on_phase2_msg subject started =
     (let jid = (if take 7 subject = ''phase2.'' then drop 7 subject else subject)
      in if jid = [] \<or> jid = subject then ([], started) else trigger_all [jid] started)"

text \<open>
  The two scans for missed jobs, at the start and every fifteen seconds; \<open>order\<close> is the order
  in which the database returns the rows, \<open>keys\<close> enumerates the results.
\<close>

definition startup_jobs :: "(string list \<Rightarrow> string list) \<Rightarrow> db \<Rightarrow> string list" where
  "startup_jobs order d =
     take 20 (order (remdups (map (\<lambda>q. fst (qr_host q)) (filter (\<lambda>q. qr_status q = ''pending'') (db_queue d)))))"

definition reconcile_jobs :: "(string list \<Rightarrow> string list) \<Rightarrow> host list \<Rightarrow> db \<Rightarrow> string list" where
  "reconcile_jobs order hs d =
     take 10 (order (remdups (map fst (filter (\<lambda>h. case db_results d h of
         None \<Rightarrow> False
       | Some r \<Rightarrow> unverified r \<and> (case db_jobs d (fst h) of
             None \<Rightarrow> False | Some j \<Rightarrow> jr_phase j \<in> {''phase2b'', ''phase2''} \<and> jr_status j = ''running'')) hs))))"


section \<open>A batch of checks\<close>

definition tls_row :: "int \<Rightarrow> result_row" where
  "tls_row delay = \<lparr>rw_status = ''tls-ok'', rw_colo = [], rw_country = [], rw_asn = [], rw_delay = delay,
                    rw_city = [], rw_org = []\<rparr>"

definition host_check :: "(string \<Rightarrow> int \<Rightarrow> scan_result) \<Rightarrow> host \<Rightarrow> scan_result" where
  "host_check check h = check (fst (snd h)) (snd (snd h))"

text \<open>The results after the checks of a set of hosts.\<close>

definition with_checks :: "(string \<Rightarrow> int \<Rightarrow> scan_result) \<Rightarrow> host set \<Rightarrow> (host \<rightharpoonup> result_row) \<Rightarrow> (host \<rightharpoonup> result_row)" where
  "with_checks check H m = (\<lambda>h. if h \<in> H \<and> sr_is_cf (host_check check h)
                               then Some (tls_row (sr_delay (host_check check h))) else m h)"

definition item_hosts :: "string \<Rightarrow> work_item list \<Rightarrow> host set" where
  "item_hosts job items = (\<lambda>(i, ip, port). (job, ip, port)) ` set items"

definition buf_hosts :: "string \<Rightarrow> (string \<times> int) list \<Rightarrow> host set" where
  "buf_hosts job buf = (\<lambda>(ip, port). (job, ip, port)) ` set buf"

text \<open>What the tables will be once the buffer is flushed.\<close>

definition settled_db :: "string \<Rightarrow> (string \<times> int) list \<times> nat \<times> db \<Rightarrow> db" where
  "settled_db job = (\<lambda>(buf, hits, d). mark_hosts (buf_hosts job buf) d)"

lemma flush_scanned_hosts: "flush_scanned job buf d = mark_hosts (buf_hosts job buf) d"
  by (simp add: flush_scanned_def mark_batch_hosts buf_hosts_def)

lemma scan_item_settled:
  "settled_db job (scan_item check job (i, ip, port) (buf, hits, d)) =
     (mark_hosts {(job, ip, port)} (settled_db job (buf, hits, d)))
       \<lparr>db_results := with_checks check {(job, ip, port)} (db_results d)\<rparr>"
proof -
  have "with_checks check {(job, ip, port)} m =
      (if sr_is_cf (check ip port) then m((job, ip, port) \<mapsto> tls_row (sr_delay (check ip port))) else m)" for m
    by (auto simp: with_checks_def host_check_def)
  moreover have "(mark_hosts H d)\<lparr>db_results := db_results d\<rparr> = mark_hosts H d" for H
    by (simp add: mark_hosts_def update_queue_def)
  ultimately show ?thesis
    by (simp add: scan_item_def settled_db_def Let_def flush_scanned_hosts insert_result_hosts buf_hosts_def
        mark_hosts_results tls_row_def Un_commute insert_commute)
qed

lemma scan_item_hits: "fst (snd (scan_item check job (i, ip, port) (buf, hits, d))) =
    hits + (if sr_is_cf (check ip port) then 1 else 0)"
  by (simp add: scan_item_def Let_def)

lemma settled_results: "db_results (settled_db job (buf, hits, d)) = db_results d"
  by (simp add: settled_db_def)

lemma fold_scan_items:
  "settled_db job (fold (scan_item check job) items st) =
     (mark_hosts (item_hosts job items) (settled_db job st))
       \<lparr>db_results := with_checks check (item_hosts job items) (db_results (settled_db job st))\<rparr> \<and>
   (fst (snd (fold (scan_item check job) items st)) = 0 \<longleftrightarrow>
      fst (snd st) = 0 \<and> (\<forall>h \<in> item_hosts job items. \<not> sr_is_cf (host_check check h)))"
proof (induction items arbitrary: st)
  case Nil
  have "with_checks check {} m = m" for m by (simp add: with_checks_def)
  then show ?case by (simp add: item_hosts_def)
next
  case (Cons it items)
  obtain i ip port where it: "it = (i, ip, port)" by (cases it) auto
  obtain buf hits d where st: "st = (buf, hits, d)" by (cases st) auto
  have "with_checks check A (with_checks check {h} m) = with_checks check (insert h A) m" for A h m
    by (auto simp: with_checks_def)
  moreover have "item_hosts job (it # items) = insert (job, ip, port) (item_hosts job items)"
    by (simp add: item_hosts_def it)
  moreover have "sr_is_cf (check ip port) = sr_is_cf (host_check check (job, ip, port))"
    by (simp add: host_check_def)
  ultimately show ?case
    using Cons.IH [of "scan_item check job it st"] scan_item_hits [of check job i ip port buf hits d]
    by (simp add: it st scan_item_settled settled_results mark_hosts_results)
qed

lemma scan_batch_effect:
  assumes "scan_batch check job items hits d = (hits', d')"
  shows "d' = (mark_hosts (item_hosts job items) d)\<lparr>db_results := with_checks check (item_hosts job items) (db_results d)\<rparr>"
    and "hits' = 0 \<longleftrightarrow> hits = 0 \<and> (\<forall>h \<in> item_hosts job items. \<not> sr_is_cf (host_check check h))"
proof -
  obtain buf n e where f: "fold (scan_item check job) items ([], hits, d) = (buf, n, e)"
    by (cases "fold (scan_item check job) items ([], hits, d)") auto
  then have "hits' = n" "d' = settled_db job (buf, n, e)"
    using assms by (simp_all add: scan_batch_def settled_db_def flush_scanned_hosts)
  then show "d' = (mark_hosts (item_hosts job items) d)\<lparr>db_results := with_checks check (item_hosts job items) (db_results d)\<rparr>"
    "hits' = 0 \<longleftrightarrow> hits = 0 \<and> (\<forall>h \<in> item_hosts job items. \<not> sr_is_cf (host_check check h))"
    using fold_scan_items [of job check items "([], hits, d)"]
    by (simp_all add: f settled_db_def buf_hosts_def)
qed


section \<open>Phase 2a of a worker on its own\<close>

definition pending_rows :: "string \<Rightarrow> db \<Rightarrow> queue_row list" where
  "pending_rows job d = filter (\<lambda>q. fst (qr_host q) = job \<and> qr_status q = ''pending'') (db_queue d)"

text \<open>No item of the job is being processed.\<close>

definition none_processing :: "string \<Rightarrow> db \<Rightarrow> bool" where
  "none_processing job d \<longleftrightarrow> distinct (map qr_id (db_queue d)) \<and>
     (\<forall>q \<in> set (db_queue d). fst (qr_host q) = job \<longrightarrow> qr_status q \<in> {''pending'', ''done''})"

definition legal_env :: "phase2_env \<Rightarrow> string \<Rightarrow> nat \<Rightarrow> nat \<Rightarrow> bool" where
  "legal_env env job limit vlimit \<longleftrightarrow> 0 < limit \<and> 0 < vlimit \<and>
     (\<forall>k d. may_fetch job limit {} (p2_pick env k d) d) \<and>
     (\<forall>k items. mset (p2_finish env k items) = mset items) \<and>
     (\<forall>k d. may_select job vlimit (p2_hits env k d) d)"

lemma pending_ids_rows: "pending_ids job d = qr_id ` set (pending_rows job d)"
  by (auto simp: pending_ids_def pending_rows_def)

lemma id_row:
  "distinct (map qr_id (db_queue d)) \<Longrightarrow> q \<in> set (db_queue d) \<Longrightarrow> q' \<in> set (db_queue d) \<Longrightarrow> qr_id q = qr_id q' \<Longrightarrow> q = q'"
  by (metis distinct_map inj_onD)

lemma fetch_hosts:
  assumes "may_fetch job limit {} ids d" "distinct (map qr_id (db_queue d))"
    and "fetch_work_batch ids w d = (items, d1)"
  shows "item_hosts job items = qr_host ` {q \<in> set (pending_rows job d). qr_id q \<in> ids}"
    and "\<forall>q \<in> set (db_queue d). qr_id q \<in> ids \<longrightarrow> q \<in> set (pending_rows job d)"
    and "d1 = update_queue (\<lambda>q. qr_id q \<in> ids) (\<lambda>q. q\<lparr>qr_status := ''processing'', qr_worker := Some w\<rparr>) d"
proof -
  have sub: "ids \<subseteq> qr_id ` set (pending_rows job d)"
    using assms(1) by (simp add: may_fetch_def pending_ids_rows)
  show rows: "\<forall>q \<in> set (db_queue d). qr_id q \<in> ids \<longrightarrow> q \<in> set (pending_rows job d)"
  proof (intro ballI impI)
    fix q assume q: "q \<in> set (db_queue d)" "qr_id q \<in> ids"
    then obtain q' where q': "q' \<in> set (pending_rows job d)" "qr_id q = qr_id q'" using sub by auto
    then have "q = q'" using id_row [OF assms(2) q(1)] by (auto simp: pending_rows_def)
    then show "q \<in> set (pending_rows job d)" using q'(1) by simp
  qed
  have items: "items = map (\<lambda>q. (qr_id q, snd (qr_host q))) (filter (\<lambda>q. qr_id q \<in> ids) (db_queue d))"
    using assms(3) by (simp add: fetch_work_batch_def)
  have "(job, snd (qr_host q)) = qr_host q" if "q \<in> set (db_queue d)" "qr_id q \<in> ids" for q
    using rows that by (auto simp: pending_rows_def prod_eq_iff)
  moreover have "set (pending_rows job d) \<subseteq> set (db_queue d)" by (auto simp: pending_rows_def)
  ultimately show "item_hosts job items = qr_host ` {q \<in> set (pending_rows job d). qr_id q \<in> ids}"
    using rows unfolding items item_hosts_def by (force simp: image_iff case_prod_unfold)
  show "d1 = update_queue (\<lambda>q. qr_id q \<in> ids) (\<lambda>q. q\<lparr>qr_status := ''processing'', qr_worker := Some w\<rparr>) d"
    using assms(3) by (simp add: fetch_work_batch_def)
qed

lemma fetch_some:
  assumes "may_fetch job limit {} ids d" "0 < limit" "pending_rows job d \<noteq> []"
  shows "ids \<noteq> {}"
proof
  assume "ids = {}"
  then have "card (qr_id ` set (pending_rows job d)) = 0"
    using assms(1,2) by (simp add: may_fetch_def pending_ids_rows min_def split: if_splits)
  then show False using assms(3) by simp
qed

text \<open>One round: the items fetched are done, the other rows of the queue are untouched.\<close>

lemma scan_round:
  assumes env: "may_fetch job limit {} ids d" "0 < limit" "mset fin = mset items"
    and d: "none_processing job d" "pending_rows job d \<noteq> []"
    and run: "fetch_work_batch ids w d = (items, d1)" "scan_batch check job fin hits d1 = (hits', d2)"
  obtains H where "H \<subseteq> qr_host ` set (pending_rows job d)" "items \<noteq> []"
    "pending_rows job d2 = filter (\<lambda>q. qr_host q \<notin> H) (pending_rows job d)"
    "length (pending_rows job d2) < length (pending_rows job d)"
    "none_processing job d2" "db_results d2 = with_checks check H (db_results d)" "db_jobs d2 = db_jobs d"
    "length (db_queue d2) = length (db_queue d)"
    "hits' = 0 \<longleftrightarrow> hits = 0 \<and> (\<forall>h \<in> H. \<not> sr_is_cf (host_check check h))"
proof
  let ?H = "item_hosts job items"
  have dist: "distinct (map qr_id (db_queue d))" using d(1) by (simp add: none_processing_def)
  note f = fetch_hosts [OF env(1) dist run(1)]
  have fin: "item_hosts job fin = ?H" using mset_eq_setD [OF env(3)] by (simp add: item_hosts_def)
  show sub: "?H \<subseteq> qr_host ` set (pending_rows job d)" using f(1) by auto
  have in_H: "\<forall>q \<in> set (db_queue d). qr_id q \<in> ids \<longrightarrow> qr_host q \<in> ?H" using f(1,2) by auto
  define touched where "touched = (\<lambda>q :: queue_row. item_done (if qr_id q \<in> ids
      then q\<lparr>qr_status := ''processing'', qr_worker := Some w\<rparr> else q))"
  have t: "qr_id (touched q) = qr_id q" "qr_host (touched q) = qr_host q" "qr_status (touched q) = ''done''" for q
    by (simp_all add: touched_def)
  note eff = scan_batch_effect [OF run(2), unfolded fin]
  have q2: "db_queue d2 = map (\<lambda>q. if qr_host q \<in> ?H then touched q else q) (db_queue d)"
    using in_H unfolding eff(1) f(3) by (auto simp: touched_def)
  show "db_results d2 = with_checks check ?H (db_results d)" "db_jobs d2 = db_jobs d"
    using eff(1) f(3) by simp_all
  show "length (db_queue d2) = length (db_queue d)" by (simp add: q2)
  show "hits' = 0 \<longleftrightarrow> hits = 0 \<and> (\<forall>h \<in> ?H. \<not> sr_is_cf (host_check check h))" by (rule eff(2))
  have "filter (\<lambda>q. fst (qr_host q) = job \<and> qr_status q = ''pending'') (map (\<lambda>q. if qr_host q \<in> H then touched q else q) qs) =
      filter (\<lambda>q. qr_host q \<notin> H) (filter (\<lambda>q. fst (qr_host q) = job \<and> qr_status q = ''pending'') qs)" for H qs
    by (induction qs) (auto simp: t)
  then show pend: "pending_rows job d2 = filter (\<lambda>q. qr_host q \<notin> ?H) (pending_rows job d)"
    by (simp add: pending_rows_def q2)
  have "qr_id \<circ> (\<lambda>q. if qr_host q \<in> ?H then touched q else q) = qr_id" by (auto simp: t)
  then show "none_processing job d2"
    using d(1) by (auto simp: none_processing_def q2 t)
  obtain q where q: "q \<in> set (pending_rows job d)" "qr_id q \<in> ids"
    using fetch_some [OF env(1,2) d(2)] env(1) by (fastforce simp: may_fetch_def pending_ids_rows)
  then have "qr_host q \<in> ?H" using f(1) by auto
  then show "items \<noteq> []" by (auto simp: item_hosts_def)
  show "length (pending_rows job d2) < length (pending_rows job d)"
    unfolding pend using q(1) \<open>qr_host q \<in> ?H\<close> by (intro length_filter_less) auto
qed

lemma fetch_none:
  assumes "may_fetch job limit {} ids d" "pending_rows job d = []"
  shows "fetch_work_batch ids w d = ([], d)"
proof -
  have "ids = {}" using assms by (simp add: may_fetch_def pending_ids_rows)
  then show ?thesis by (simp add: fetch_work_batch_def update_queue_def)
qed

lemma with_checks_union: "with_checks check A (with_checks check B m) = with_checks check (A \<union> B) m"
  by (auto simp: with_checks_def)

lemma phase2a_alone:
  assumes env: "legal_env env job limit vlimit" "\<forall>k d. p2_others env k d = d"
    and d: "none_processing job d" "\<not> is_job_cancelled job d" "length (pending_rows job d) < fuel"
  shows "\<exists>hits' d'. phase2a fuel env w job k hits d = Some (Some hits', d') \<and>
    (\<forall>q \<in> set (db_queue d'). fst (qr_host q) = job \<longrightarrow> qr_status q = ''done'') \<and> db_jobs d' = db_jobs d \<and>
    db_results d' = with_checks (p2_check env) (qr_host ` set (pending_rows job d)) (db_results d) \<and>
    (hits' = 0 \<longleftrightarrow> hits = 0 \<and> (\<forall>h \<in> qr_host ` set (pending_rows job d). \<not> sr_is_cf (host_check (p2_check env) h)))"
  using d
proof (induction fuel arbitrary: k hits d)
  case (Suc fuel)
  have fetch: "may_fetch job limit {} (p2_pick env k d) d" and limit: "0 < limit"
    using env(1) by (auto simp: legal_env_def)
  obtain items d1 where f: "fetch_work_batch (p2_pick env k d) w d = (items, d1)" by fastforce
  show ?case
  proof (cases "pending_rows job d = []")
    case True
    then have "items = []" "d1 = d" using fetch_none [OF fetch, of w] f by auto
    moreover have "\<forall>q \<in> set (db_queue d). fst (qr_host q) = job \<longrightarrow> qr_status q = ''done''"
      using True Suc.prems(1) by (auto simp: none_processing_def pending_rows_def filter_empty_conv)
    moreover then have "count_queue (\<lambda>q. qr_status q \<noteq> ''done'') job d = 0"
      by (simp add: count_queue_def filter_empty_conv)
    ultimately show ?thesis
      using True Suc.prems(2) env(2) f by (simp add: Let_def with_checks_def)
  next
    case False
    obtain hits1 d2 where b: "scan_batch (p2_check env) job (p2_finish env k items) hits d1 = (hits1, d2)" by fastforce
    have "mset (p2_finish env k items) = mset items" using env(1) by (simp add: legal_env_def)
    from scan_round [OF fetch limit this Suc.prems(1) False f b] obtain H where
      H: "H \<subseteq> qr_host ` set (pending_rows job d)" "items \<noteq> []"
        "pending_rows job d2 = filter (\<lambda>q. qr_host q \<notin> H) (pending_rows job d)"
        "length (pending_rows job d2) < length (pending_rows job d)"
      and d2: "none_processing job d2" "db_results d2 = with_checks (p2_check env) H (db_results d)" "db_jobs d2 = db_jobs d"
      and hits: "hits1 = 0 \<longleftrightarrow> hits = 0 \<and> (\<forall>h \<in> H. \<not> sr_is_cf (host_check (p2_check env) h))"
      by metis
    have step: "phase2a (Suc fuel) env w job k hits d = phase2a fuel env w job (Suc k) hits1 d2"
      using Suc.prems(2) env(2) f b H(2) by (simp add: Let_def)
    have un: "qr_host ` set (pending_rows job d) = H \<union> qr_host ` set (pending_rows job d2)"
      using H(1,3) by auto
    have "\<not> is_job_cancelled job d2" using Suc.prems(2) d2(3) by (simp add: is_job_cancelled_def job_column_def)
    moreover have "length (pending_rows job d2) < fuel" using H(4) Suc.prems(3) by simp
    ultimately show ?thesis
      unfolding step using Suc.IH [OF d2(1), of "Suc k" hits1] d2(2,3) hits
      by (simp add: un with_checks_union Un_commute ball_Un)
  qed
qed simp


section \<open>Phase 2b of a worker on its own\<close>

definition open_hosts :: "string \<Rightarrow> db \<Rightarrow> host set" where
  "open_hosts job d = {h. fst h = job \<and> (\<exists>r. db_results d h = Some r \<and> unverified r)}"

text \<open>Whether the service confirms a host, and what verification makes of its row.\<close>

definition confirmed :: "(string \<Rightarrow> int \<Rightarrow> verify_error + check_result option) \<Rightarrow> host \<Rightarrow> bool" where
  "confirmed ver h = (case ver (fst (snd h)) (snd (snd h)) of Inr (Some c) \<Rightarrow> cr_success c | _ \<Rightarrow> False)"

definition verdict :: "(string \<Rightarrow> int \<Rightarrow> verify_error + check_result option) \<Rightarrow> host \<Rightarrow> result_row \<Rightarrow> result_row" where
  "verdict ver h r =
     (case ver (fst (snd h)) (snd (snd h)) of
        Inl e \<Rightarrow> r\<lparr>rw_colo := ''error''\<rparr>
      | Inr None \<Rightarrow> r\<lparr>rw_colo := ''fail''\<rparr>
      | Inr (Some c) \<Rightarrow>
          if \<not> cr_success c then r\<lparr>rw_colo := ''fail''\<rparr>
          else \<lparr>rw_status = ''verified'', rw_colo = cr_colo c, rw_country = cr_country c, rw_asn = cr_asn c,
                rw_delay = rw_delay r, rw_city = [], rw_org = []\<rparr>)"

text \<open>The queue only has more items marked.\<close>

definition marked :: "db \<Rightarrow> db \<Rightarrow> bool" where
  "marked d d' \<longleftrightarrow> (\<exists>H. db_queue d' = db_queue (mark_hosts H d))"

lemma marked_refl [simp]: "db_queue d' = db_queue d \<Longrightarrow> marked d d'"
  unfolding marked_def by (rule exI [of _ "{}"]) simp

lemma marked_hosts [simp]: "marked d ((mark_hosts H d)\<lparr>db_results := m\<rparr>)" "marked d (mark_hosts H d)"
  unfolding marked_def by (rule exI [of _ H], simp)+

lemma marked_trans: "marked d d1 \<Longrightarrow> marked d1 d2 \<Longrightarrow> marked d d2"
proof -
  assume "marked d d1" "marked d1 d2"
  then obtain H1 H2 where "db_queue d1 = db_queue (mark_hosts H1 d)" "db_queue d2 = db_queue (mark_hosts H2 d1)"
    unfolding marked_def by blast
  then have "db_queue d2 = db_queue (mark_hosts (H2 \<union> H1) d)" by auto
  then show ?thesis unfolding marked_def by blast
qed

lemma marked_done:
  "marked d d' \<Longrightarrow> \<forall>q \<in> set (db_queue d). fst (qr_host q) = job \<longrightarrow> qr_status q = ''done'' \<Longrightarrow>
   \<forall>q \<in> set (db_queue d'). fst (qr_host q) = job \<longrightarrow> qr_status q = ''done''"
  by (auto simp: marked_def)

lemma verdict_closed: "unverified r \<Longrightarrow> \<not> unverified (verdict ver h r)"
  by (simp add: verdict_def unverified_def split: sum.split option.split)

lemma verdict_status: "unverified r \<Longrightarrow> rw_status (verdict ver h r) = (if confirmed ver h then ''verified'' else ''tls-ok'')"
  by (simp add: verdict_def confirmed_def unverified_def split: sum.split option.split)

text \<open>Only results and queue marks change.\<close>

lemma verify_hit_effect:
  assumes "db_results d (job, ip, port) = Some r" "unverified r" "delay = rw_delay r"
  shows "db_results (verify_hit ver job (ip, port, delay) d) =
      (db_results d)((job, ip, port) \<mapsto> verdict ver (job, ip, port) r)"
    and "db_jobs (verify_hit ver job (ip, port, delay) d) = db_jobs d"
    and "marked d (verify_hit ver job (ip, port, delay) d)"
proof -
  show "marked d (verify_hit ver job (ip, port, delay) d)"
    by (simp add: verify_hit_def set_colo_def insert_result_hosts mark_hosts_results del: mark_hosts_fields
        split: sum.split option.split)
qed (use assms in \<open>auto simp: verify_hit_def verdict_def set_colo_def insert_result_hosts unverified_def
       split: sum.split option.split\<close>)

lemma verify_round:
  assumes "distinct hs" "set hs \<subseteq> open_hosts job d0" "\<forall>h \<in> set hs. db_results d h = db_results d0 h"
  shows "db_results (fold (verify_hit ver job) (map (hit_row d0) hs) d) =
      (\<lambda>h. if h \<in> set hs then map_option (verdict ver h) (db_results d0 h) else db_results d h) \<and>
    db_jobs (fold (verify_hit ver job) (map (hit_row d0) hs) d) = db_jobs d \<and>
    marked d (fold (verify_hit ver job) (map (hit_row d0) hs) d)"
  using assms
proof (induction hs arbitrary: d)
  case Nil
  then show ?case by simp
next
  case (Cons h hs)
  obtain ip port r where h: "h = (job, ip, port)" "db_results d0 h = Some r" "unverified r"
    using Cons.prems(2) by (cases h) (auto simp: open_hosts_def)
  define d1 where "d1 = verify_hit ver job (ip, port, rw_delay r) d"
  have row: "hit_row d0 h = (ip, port, rw_delay r)" using h by (simp add: hit_row_def)
  have "db_results d (job, ip, port) = Some r" using Cons.prems(3) h by simp
  note eff = verify_hit_effect [OF this h(3) refl, of ver, folded d1_def]
  have "\<forall>x \<in> set hs. db_results d1 x = db_results d0 x"
    using Cons.prems(1,3) eff(1) h(1) by auto
  then have ih: "db_results (fold (verify_hit ver job) (map (hit_row d0) hs) d1) =
      (\<lambda>h. if h \<in> set hs then map_option (verdict ver h) (db_results d0 h) else db_results d1 h)"
    "db_jobs (fold (verify_hit ver job) (map (hit_row d0) hs) d1) = db_jobs d1"
    "marked d1 (fold (verify_hit ver job) (map (hit_row d0) hs) d1)"
    using Cons.IH [of d1] Cons.prems by auto
  have "marked d (fold (verify_hit ver job) (map (hit_row d0) hs) d1)" by (rule marked_trans [OF eff(3) ih(3)])
  moreover have "fold (verify_hit ver job) (map (hit_row d0) (h # hs)) d = fold (verify_hit ver job) (map (hit_row d0) hs) d1"
    by (simp add: d1_def row)
  moreover have "(if x \<in> set hs then map_option (verdict ver x) (db_results d0 x) else db_results d1 x) =
      (if x \<in> set (h # hs) then map_option (verdict ver x) (db_results d0 x) else db_results d x)" for x
    using h Cons.prems(1) by (simp add: eff(1))
  ultimately show ?case using ih(1,2) eff(2) by presburger
qed

text \<open>What phase 2b leaves: every open result has its verdict.\<close>

definition with_verdicts :: "(string \<Rightarrow> int \<Rightarrow> verify_error + check_result option) \<Rightarrow> host set \<Rightarrow> (host \<rightharpoonup> result_row) \<Rightarrow> (host \<rightharpoonup> result_row)" where
  "with_verdicts ver U m = (\<lambda>h. if h \<in> U then map_option (verdict ver h) (m h) else m h)"

lemma phase2b_alone:
  assumes env: "legal_env env job limit vlimit" "\<forall>k d. p2_others env k d = d"
    and d: "finite (open_hosts job d)" "\<not> is_job_cancelled job d" "card (open_hosts job d) < fuel"
  shows "\<exists>d'. phase2b fuel env job k d = Some d' \<and> db_jobs d' = db_jobs d \<and>
    marked d d' \<and>
    db_results d' = with_verdicts (p2_verify env) (open_hosts job d) (db_results d)"
  using d
proof (induction fuel arbitrary: k d)
  case (Suc fuel)
  let ?hs = "p2_hits env k d" and ?U = "open_hosts job d"
  have sel: "distinct ?hs" "set ?hs \<subseteq> ?U" "length ?hs = min vlimit (card ?U)" "0 < vlimit"
    using env(1) by (auto simp: legal_env_def may_select_def Let_def open_hosts_def)
  show ?case
  proof (cases "?hs = []")
    case True
    then have "card ?U = 0" using sel(3,4) by auto
    then have "?U = {}" using Suc.prems(1) card_0_eq by blast
    then show ?thesis
      using True Suc.prems(2) env(2) by (auto simp: Let_def with_verdicts_def)
  next
    case False
    define d2 where "d2 = fold (verify_hit (p2_verify env) job) (map (hit_row d) ?hs) d"
    have r: "db_results d2 = with_verdicts (p2_verify env) (set ?hs) (db_results d)" "db_jobs d2 = db_jobs d"
      "marked d d2"
      using verify_round [OF sel(1,2), of d "p2_verify env"] by (simp_all add: d2_def with_verdicts_def)
    have U2: "open_hosts job d2 = ?U - set ?hs"
    proof (intro set_eqI iffI)
      fix x assume x: "x \<in> open_hosts job d2"
      show "x \<in> ?U - set ?hs"
      proof (cases "x \<in> set ?hs")
        case True
        then obtain row where "db_results d x = Some row" "unverified row"
          using sel(2) unfolding open_hosts_def by blast
        then have "db_results d2 x = Some (verdict (p2_verify env) x row)"
          using True by (simp add: r(1) with_verdicts_def)
        then show ?thesis using x verdict_closed [OF \<open>unverified row\<close>] by (simp add: open_hosts_def)
      next
        case False
        then show ?thesis using x by (simp add: open_hosts_def r(1) with_verdicts_def)
      qed
    next
      fix x assume "x \<in> ?U - set ?hs"
      then show "x \<in> open_hosts job d2" by (simp add: open_hosts_def r(1) with_verdicts_def)
    qed
    have step: "phase2b (Suc fuel) env job k d = phase2b fuel env job (Suc k) d2"
      using False Suc.prems(2) env(2) by (simp add: Let_def d2_def)
    have "card (open_hosts job d2) < card ?U"
      using Suc.prems(1) sel(2) False unfolding U2 by (intro psubset_card_mono) (auto simp: neq_Nil_conv)
    then have "card (open_hosts job d2) < fuel" using Suc.prems(3) by simp
    moreover have "finite (open_hosts job d2)" using Suc.prems(1) by (simp add: U2)
    moreover have "\<not> is_job_cancelled job d2" using Suc.prems(2) r(2) by (simp add: is_job_cancelled_def job_column_def)
    ultimately obtain d' where d': "phase2b fuel env job (Suc k) d2 = Some d'" "db_jobs d' = db_jobs d2"
      "marked d2 d'"
      "db_results d' = with_verdicts (p2_verify env) (open_hosts job d2) (db_results d2)"
      using Suc.IH [of d2 "Suc k"] by blast
    have "marked d d'" by (rule marked_trans [OF r(3) d'(3)])
    moreover have "db_results d' = with_verdicts (p2_verify env) ?U (db_results d)"
      unfolding d'(4) r(1) U2 with_verdicts_def using sel(2) by (intro ext) auto
    ultimately show ?thesis
      unfolding step using d'(1,2) r(2) by auto
  qed
qed simp


section \<open>Phase 2 of a job, end to end\<close>

lemma count_results_zero:
  assumes "set hs = dom (db_results d)"
  shows "count_results hs p job d = 0 \<longleftrightarrow> (\<forall>h r. fst h = job \<and> db_results d h = Some r \<longrightarrow> \<not> p r)"
proof -
  have "count_results hs p job d = 0 \<longleftrightarrow> set (result_rows hs p job d) = {}"
    by (simp add: count_results_def)
  also have "set (result_rows hs p job d) = {(h, r). h \<in> set hs \<and> fst h = job \<and> db_results d h = Some r \<and> p r}"
    by (induction hs) (auto simp: result_rows_def map_filter_def split: option.splits if_splits)
  also have "\<dots> = {} \<longleftrightarrow> (\<forall>h r. fst h = job \<and> db_results d h = Some r \<longrightarrow> \<not> p r)"
    using assms by (auto simp: dom_def simp del: split_paired_All split_paired_Ex)
  finally show ?thesis .
qed

lemma phase2_row_done:
  assumes "set hs = dom (db_results d)" "\<forall>q \<in> set (db_queue d). fst (qr_host q) = job \<longrightarrow> qr_status q = ''done''"
    and "\<forall>h r. fst h = job \<and> db_results d h = Some r \<longrightarrow> \<not> unverified r" "db_jobs d job = Some j"
  shows "job_column jr_status job (phase2_row hs job d) = ''done''" "db_queue (phase2_row hs job d) = db_queue d"
    and "db_results (phase2_row hs job d) = (\<lambda>h. case db_results d h of
      None \<Rightarrow> None | Some r \<Rightarrow> if fst h = job \<and> rw_status r = ''tls-ok'' then None else Some r)"
proof -
  have "count_queue (\<lambda>q. qr_status q \<noteq> ''done'') job d = 0" using assms(2) by (simp add: count_queue_def filter_empty_conv)
  moreover have "count_results hs unverified job d = 0" using count_results_zero [OF assms(1)] assms(3) by blast
  ultimately show "job_column jr_status job (phase2_row hs job d) = ''done''" "db_queue (phase2_row hs job d) = db_queue d"
    "db_results (phase2_row hs job d) = (\<lambda>h. case db_results d h of
      None \<Rightarrow> None | Some r \<Rightarrow> if fst h = job \<and> rw_status r = ''tls-ok'' then None else Some r)"
    using assms(4) by (simp_all add: phase2_row_def Let_def update_job_phase_def job_column_def)
qed

lemma open_after_checks:
  assumes "\<forall>h. fst h = job \<longrightarrow> db_results d0 h = None" "db_results d = with_checks check H (db_results d0)"
    and "\<forall>h \<in> H. fst h = job"
  shows "open_hosts job d = {h \<in> H. sr_is_cf (host_check check h)}"
proof (intro set_eqI)
  fix h
  have new: "db_results d h = Some (tls_row (sr_delay (host_check check h)))" if "h \<in> H" "sr_is_cf (host_check check h)"
    using that by (simp add: assms(2) with_checks_def)
  have old: "db_results d h = db_results d0 h" if "\<not> (h \<in> H \<and> sr_is_cf (host_check check h))"
    by (simp only: assms(2) with_checks_def that if_False)
  show "h \<in> open_hosts job d \<longleftrightarrow> h \<in> {h \<in> H. sr_is_cf (host_check check h)}"
  proof (cases "h \<in> H \<and> sr_is_cf (host_check check h)")
    case True
    then show ?thesis using new assms(3) by (simp add: open_hosts_def tls_row_def unverified_def)
  next
    case False
    then have "fst h = job \<Longrightarrow> db_results d h = None" using old assms(1) by metis
    then show ?thesis using False by (auto simp: open_hosts_def)
  qed
qed

lemma process_phase2_alone:
  fixes env :: phase2_env
  defines "check \<equiv> p2_check env" and "ver \<equiv> p2_verify env"
  assumes legal: "legal_env env job limit vlimit" "\<forall>k d. p2_others env k d = d"
    and start: "none_processing job d" "db_jobs d job = Some j" "jr_status j = ''running''"
      "\<forall>h. fst h = job \<longrightarrow> db_results d h = None"
    and keys: "\<forall>d. finite (dom (db_results d)) \<longrightarrow> set (keys d) = dom (db_results d)" "finite (dom (db_results d))"
    and fuel: "length (db_queue d) < fuel"
    and H: "H = qr_host ` set (pending_rows job d)"
  shows "\<exists>d2. process_phase2 fuel env w job keys d = Some d2 \<and> db_jobs d2 = db_jobs d \<and>
    (\<forall>q \<in> set (db_queue d2). fst (qr_host q) = job \<longrightarrow> qr_status q = ''done'') \<and>
    db_results d2 = with_verdicts ver {h \<in> H. sr_is_cf (host_check check h)} (with_checks check H (db_results d))"
proof -
  let ?d0 = "set_activity w ''scanning'' d" and ?C = "{h \<in> H. sr_is_cf (host_check check h)}"
  have pend: "pending_rows job ?d0 = pending_rows job d" by (simp add: pending_rows_def)
  have len: "length (pending_rows job d) \<le> length (db_queue d)" by (simp add: pending_rows_def)
  have nc: "\<not> is_job_cancelled job d" using start(2,3) by (simp add: is_job_cancelled_def job_column_def)
  then have nc0: "\<not> is_job_cancelled job ?d0" by (simp add: is_job_cancelled_def job_column_def)
  have np: "none_processing job ?d0" using start(1) by (simp add: none_processing_def)
  have "length (pending_rows job ?d0) < fuel" using len fuel pend by simp
  from phase2a_alone [OF legal np nc0 this, of w 0 0] obtain hits d1 where
    a: "phase2a fuel env w job 0 0 ?d0 = Some (Some hits, d1)"
      "\<forall>q \<in> set (db_queue d1). fst (qr_host q) = job \<longrightarrow> qr_status q = ''done''"
      "db_jobs d1 = db_jobs d" "db_results d1 = with_checks check H (db_results d)"
      "hits = 0 \<longleftrightarrow> (\<forall>h \<in> H. \<not> sr_is_cf (host_check check h))"
    by (auto simp: pend H check_def)
  have Hjob: "\<forall>h \<in> H. fst h = job" by (auto simp: H pending_rows_def)
  have U: "open_hosts job d1 = ?C" by (rule open_after_checks [OF start(4) a(4) Hjob])
  have finH: "finite H" by (simp add: H)
  have nc1: "\<not> is_job_cancelled job d1" using nc a(3) by (simp add: is_job_cancelled_def job_column_def)
  have "dom (with_checks check H m) \<subseteq> dom m \<union> H" for m by (auto simp: with_checks_def split: if_splits)
  then have "finite (dom (db_results d1))" using keys(2) finH a(4) by (metis finite_Un rev_finite_subset)
  then have keys1: "set (keys d1) = dom (db_results d1)" using keys(1) by blast
  have none: "with_verdicts ver {} m = m" for m by (simp add: with_verdicts_def)
  show ?thesis
  proof (cases "?C = {}")
    case True
    then have "hits = 0" using a(5) by blast
    moreover have "\<forall>h r. fst h = job \<and> db_results d1 h = Some r \<longrightarrow> \<not> unverified r"
      using U True unfolding open_hosts_def by blast
    then have "count_results (keys d1) unverified job d1 = 0" using count_results_zero [OF keys1] by blast
    ultimately have "process_phase2 fuel env w job keys d = Some (set_activity w ''idle'' d1)"
      using a(1) by (simp add: process_phase2_def)
    moreover have "with_verdicts ver ?C m = m" for m unfolding True by (rule none)
    ultimately show ?thesis using a(2-4) by simp
  next
    case False
    then have hits: "hits \<noteq> 0" using a(5) by auto
    let ?d1 = "set_activity w ''verifying'' d1"
    have U1: "open_hosts job ?d1 = ?C" using U by (simp add: open_hosts_def)
    have "card ?C \<le> card H" by (rule card_mono [OF finH]) auto
    also have "card H \<le> length (pending_rows job d)" unfolding H
      by (rule order_trans [OF card_image_le card_length]) simp
    finally have "card ?C < fuel" using len fuel by simp
    moreover have "finite ?C" using finH by simp
    moreover have "\<not> is_job_cancelled job ?d1" using nc1 by (simp add: is_job_cancelled_def job_column_def)
    ultimately obtain d2 where b: "phase2b fuel env job 0 ?d1 = Some d2" "db_jobs d2 = db_jobs ?d1" "marked ?d1 d2"
      "db_results d2 = with_verdicts ver ?C (db_results ?d1)"
      using phase2b_alone [OF legal, of ?d1 fuel 0] unfolding U1 ver_def by blast
    have "\<not> is_job_cancelled job d2" using b(2) nc1 by (simp add: is_job_cancelled_def job_column_def)
    then have "process_phase2 fuel env w job keys d = Some (set_activity w ''idle'' d2)"
      using a(1) hits b(1) by (simp add: process_phase2_def)
    moreover have "\<forall>q \<in> set (db_queue d2). fst (qr_host q) = job \<longrightarrow> qr_status q = ''done''"
      by (rule marked_done [OF b(3)]) (use a(2) in simp)
    ultimately show ?thesis using b(2,4) a(3,4) by simp
  qed
qed

text \<open>
  C3. Phase 2 of a job, done by one worker alone: if the job is running, no item is being
  processed and no result stored yet, the worker comes to an end whatever items the database
  hands out, in whatever order the checks finish; when the watcher then looks at the job it sets
  it done, every item of the queue is done, and the job's results are exactly the pending hosts
  that the TLS check takes for a proxy and the service confirms, each marked verified.
\<close>

theorem phase2_end_to_end:
  assumes legal: "legal_env env job limit vlimit" "\<forall>k d. p2_others env k d = d"
    and start: "none_processing job d" "db_jobs d job = Some j" "jr_status j = ''running''"
      "\<forall>h. fst h = job \<longrightarrow> db_results d h = None"
    and keys: "\<forall>d. finite (dom (db_results d)) \<longrightarrow> set (keys d) = dom (db_results d)" "finite (dom (db_results d))"
    and fuel: "length (db_queue d) < fuel"
  shows "\<exists>d2. process_phase2 fuel env w job keys d = Some d2 \<and>
    (let d3 = phase2_row (keys d2) job d2
     in job_column jr_status job d3 = ''done'' \<and>
        (\<forall>q \<in> set (db_queue d3). fst (qr_host q) = job \<longrightarrow> qr_status q = ''done'') \<and>
        {h. fst h = job \<and> db_results d3 h \<noteq> None} =
          {h \<in> qr_host ` set (pending_rows job d). sr_is_cf (host_check (p2_check env) h) \<and> confirmed (p2_verify env) h} \<and>
        (\<forall>h r. fst h = job \<and> db_results d3 h = Some r \<longrightarrow> rw_status r = ''verified''))"
proof -
  define H where "H = qr_host ` set (pending_rows job d)"
  let ?C = "{h \<in> H. sr_is_cf (host_check (p2_check env) h)}"
  obtain d2 where d2: "process_phase2 fuel env w job keys d = Some d2" "db_jobs d2 = db_jobs d"
    "\<forall>q \<in> set (db_queue d2). fst (qr_host q) = job \<longrightarrow> qr_status q = ''done''"
    "db_results d2 = with_verdicts (p2_verify env) ?C (with_checks (p2_check env) H (db_results d))"
    using process_phase2_alone [OF legal start keys fuel H_def] by blast
  have Hjob: "\<forall>h \<in> H. fst h = job" by (auto simp: H_def pending_rows_def)
  have rows: "db_results d2 h = (if h \<in> ?C then Some (verdict (p2_verify env) h (tls_row (sr_delay (host_check (p2_check env) h)))) else None)"
    if "fst h = job" for h
  proof -
    have "db_results d h = None" using start(4) that by blast
    then show ?thesis by (simp add: d2(4) with_verdicts_def with_checks_def)
  qed
  have tls: "unverified (tls_row n)" for n by (simp add: unverified_def tls_row_def)
  have "dom (db_results d2) \<subseteq> dom (db_results d) \<union> H"
    by (auto simp: d2(4) with_verdicts_def with_checks_def split: if_splits)
  moreover have "finite (dom (db_results d) \<union> H)" using keys(2) by (simp add: H_def)
  ultimately have "finite (dom (db_results d2))" by (rule finite_subset)
  then have k2: "set (keys d2) = dom (db_results d2)" using keys(1) by blast
  have none_open: "\<forall>h r. fst h = job \<and> db_results d2 h = Some r \<longrightarrow> \<not> unverified r"
    using rows verdict_closed [OF tls] by (auto split: if_splits)
  have "db_jobs d2 job = Some j" using d2(2) start(2) by simp
  note done' = phase2_row_done [OF k2 d2(3) none_open this]
  let ?d3 = "phase2_row (keys d2) job d2"
  have res: "db_results ?d3 h = (if h \<in> ?C \<and> confirmed (p2_verify env) h
      then Some (verdict (p2_verify env) h (tls_row (sr_delay (host_check (p2_check env) h)))) else None)"
    if "fst h = job" for h
    using rows [OF that] verdict_status [OF tls, of "p2_verify env" h] that by (simp add: done'(3))
  have "{h. fst h = job \<and> db_results ?d3 h \<noteq> None} =
      {h \<in> H. sr_is_cf (host_check (p2_check env) h) \<and> confirmed (p2_verify env) h}"
    using res Hjob by (auto split: if_splits)
  moreover have "\<forall>h r. fst h = job \<and> db_results ?d3 h = Some r \<longrightarrow> rw_status r = ''verified''"
    using res verdict_status [OF tls, of "p2_verify env"] by (auto split: if_splits)
  ultimately show ?thesis
    using d2(1,3) done'(1,2) unfolding H_def [symmetric] Let_def by (intro exI [of _ d2]) simp
qed


text \<open>
  Two pending items, of which the check takes \<open>1.1.1.1\<close> for a proxy and the service confirms
  everything. The database hands out items two at a time in the order of the table.
\<close>

definition demo_p2 :: phase2_env where
  "demo_p2 =
     \<lparr>p2_check = (\<lambda>ip port. \<lparr>sr_ip = ip, sr_port = port, sr_is_cf = (ip = ''1.1.1.1''), sr_delay = 7\<rparr>),
      p2_others = (\<lambda>k d. d),
      p2_pick = (\<lambda>k d. set (take 2 (remdups (map qr_id (pending_rows ''j'' d))))),
      p2_finish = (\<lambda>k items. rev items),
      p2_verify = (\<lambda>ip port. Inr (Some \<lparr>cr_success = True, cr_ip = ip, cr_colo = ''SJC'', cr_region = [],
                                         cr_asn = ''13335'', cr_country = ''US''\<rparr>)),
      p2_hits = (\<lambda>k d. take 4 (sorted_list_of_set (open_hosts ''j'' d)))\<rparr>"

definition demo_v2_db :: db where
  "demo_v2_db =
     \<lparr>db_jobs = [''j'' \<mapsto> \<lparr>jr_name = ''n'', jr_mode = ''tls'', jr_asns = ''AS1'', jr_ports = ''443'', jr_status = ''running'',
                  jr_phase = ''phase2'', jr_total_workers = 1, jr_done_workers = 1, jr_total_items = 2, jr_created_at = 0\<rparr>],
      db_workers = Map.empty, db_beats = Map.empty, db_masscan = [],
      db_queue = [\<lparr>qr_id = 0, qr_host = (''j'', ''1.1.1.1'', 443), qr_status = ''pending'', qr_worker = None\<rparr>,
                  \<lparr>qr_id = 1, qr_host = (''j'', ''2.2.2.2'', 443), qr_status = ''pending'', qr_worker = None\<rparr>],
      db_next = 2, db_results = Map.empty\<rparr>"

lemma demo_p2_legal: "legal_env demo_p2 ''j'' 2 4"
proof -
  have "may_fetch ''j'' 2 {} (set (take 2 (remdups (map qr_id (pending_rows ''j'' d))))) d" for d
  proof -
    let ?ids = "remdups (map qr_id (pending_rows ''j'' d))"
    have "card (set (take 2 ?ids)) = length (take 2 ?ids)" by (rule distinct_card) simp
    moreover have "length ?ids = card (set (map qr_id (pending_rows ''j'' d)))" by (rule length_remdups_card_conv)
    ultimately show ?thesis
      by (auto simp: may_fetch_def pending_ids_rows min.commute dest: in_set_takeD)
  qed
  moreover have "may_select ''j'' 4 (take 4 (sorted_list_of_set (open_hosts ''j'' d))) d" for d
  proof (cases "finite (open_hosts ''j'' d)")
    case True
    then show ?thesis
      using in_set_takeD [of _ 4 "sorted_list_of_set (open_hosts ''j'' d)"]
      by (auto simp: may_select_def Let_def open_hosts_def [symmetric])
  next
    case False
    then show ?thesis by (simp add: may_select_def Let_def open_hosts_def [symmetric])
  qed
  ultimately show ?thesis by (simp add: legal_env_def demo_p2_def)
qed

theorem phase2_end_to_end_witness:
  "\<exists>d2. process_phase2 3 demo_p2 ''w'' ''j'' (\<lambda>d. sorted_list_of_set (dom (db_results d))) demo_v2_db = Some d2 \<and>
     {h. fst h = ''j'' \<and> db_results (phase2_row (sorted_list_of_set (dom (db_results d2))) ''j'' d2) h \<noteq> None} =
       {(''j'', ''1.1.1.1'', 443)}"
proof -
  have start: "none_processing ''j'' demo_v2_db" "jr_status (the (db_jobs demo_v2_db ''j'')) = ''running''"
    "db_jobs demo_v2_db ''j'' = Some (the (db_jobs demo_v2_db ''j''))" "\<forall>h. fst h = ''j'' \<longrightarrow> db_results demo_v2_db h = None"
    "finite (dom (db_results demo_v2_db))" "length (db_queue demo_v2_db) < 3"
    by (simp_all add: none_processing_def demo_v2_db_def)
  have others: "\<forall>k d. p2_others demo_p2 k d = d" by (simp add: demo_p2_def)
  have keys: "\<forall>d. finite (dom (db_results d)) \<longrightarrow> set (sorted_list_of_set (dom (db_results d))) = dom (db_results d)"
    by simp
  have hosts: "{h \<in> qr_host ` set (pending_rows ''j'' demo_v2_db). sr_is_cf (host_check (p2_check demo_p2) h) \<and>
      confirmed (p2_verify demo_p2) h} = {(''j'', ''1.1.1.1'', 443)}"
    by (auto simp: pending_rows_def demo_v2_db_def demo_p2_def host_check_def confirmed_def)
  obtain d2 where d2: "process_phase2 3 demo_p2 ''w'' ''j'' (\<lambda>d. sorted_list_of_set (dom (db_results d))) demo_v2_db = Some d2"
    "{h. fst h = ''j'' \<and> db_results (phase2_row (sorted_list_of_set (dom (db_results d2))) ''j'' d2) h \<noteq> None} =
      {h \<in> qr_host ` set (pending_rows ''j'' demo_v2_db). sr_is_cf (host_check (p2_check demo_p2) h) \<and>
        confirmed (p2_verify demo_p2) h}"
    using phase2_end_to_end [OF demo_p2_legal others start(1,3,2,4) keys start(5,6), of "''w''"]
    unfolding Let_def by blast
  show ?thesis by (rule exI [of _ d2]) (rule conjI [OF d2(1) d2(2) [unfolded hosts]])
qed

text \<open>
  C40. The probe always ends, whatever the counters show, and then gives a rate between 1000 and
  200000. It panics only when masscan could not be started.
\<close>

theorem probe_rate_bounds:
  "case probe_masscan_rate env of
     Returns rate \<Rightarrow> 1000 \<le> rate \<and> rate \<le> 200000
   | Panics rate \<Rightarrow> \<exists>k. \<not> masscan_starts env k"
proof -
  have "1000 \<le> best \<Longrightarrow> best \<le> 200000 \<Longrightarrow> 1000 \<le> rate \<Longrightarrow>
    (case probe_loop env k best rate of
       Returns n \<Rightarrow> 1000 \<le> n \<and> n \<le> 200000 | Panics n \<Rightarrow> \<exists>k. \<not> masscan_starts env k)" for k best rate
  proof (induction env k best rate rule: probe_loop.induct)
    case (2 env k best r)
    show ?case
    proof (cases "tx_before env k")
      case None
      then show ?thesis using 2(2-4) by simp
    next
      case (Some before)
      let ?sent = "tx_after env k - before"
      consider "Suc r > 200000" | "Suc r \<le> 200000" "\<not> masscan_starts env k"
        | "Suc r \<le> 200000" "masscan_starts env k" "10 * ?sent \<ge> 35 * int (Suc r)"
        | "Suc r \<le> 200000" "masscan_starts env k" "10 * ?sent < 35 * int (Suc r)" by linarith
      then show ?thesis
      proof cases
        case 3
        then show ?thesis using 2(1) [OF refl _ Some _ refl 3(3)] 2(2-4) Some by simp
      next
        case 4
        have "10 * ?sent \<ge> 15 * int (Suc r) \<Longrightarrow> go_div (4 * ?sent) 25 \<le> 200000"
          using 4 by (subst go_div_nonneg) auto
        then show ?thesis using 4 2(2,3) Some by (simp add: Let_def max_def)
      qed (use 2(2,3) Some in auto)
    qed
  qed simp
  then show ?thesis by (simp add: probe_masscan_rate_def)
qed

lemma phase1_loop_rows:
  assumes "\<forall>i b a. exec i b a = Committed"
  shows "db_jobs (phase1_loop sch exec job i (map Batch bs @ [StreamDone]) d) = db_jobs d \<and>
    set (db_masscan (phase1_loop sch exec job i (map Batch bs @ [StreamDone]) d)) = set (db_masscan d) \<union>
      {(job, mr_ip r, mr_port (hd b)) | r b. b \<in> set bs \<and> r \<in> set b}"
proof (induction bs arbitrary: i d)
  case (Cons b bs)
  show ?case
  proof (cases b)
    case Nil
    have "{(job, mr_ip r, mr_port (hd c)) | r c. c \<in> set (b # bs) \<and> r \<in> set c} =
        {(job, mr_ip r, mr_port (hd c)) | r c. c \<in> set bs \<and> r \<in> set c}"
      unfolding Nil by fastforce
    moreover have "phase1_loop sch exec job i (map Batch (b # bs) @ [StreamDone]) d =
        phase1_loop sch exec job (Suc i) (map Batch bs @ [StreamDone]) d" using Nil by simp
    ultimately show ?thesis using Cons.IH [of "Suc i" d] by presburger
  next
    case (Cons r rs)
    obtain ok d1 where ins: "insert_masscan_results sch (exec i) job (map mr_ip b) (mr_port r) d = (ok, d1)" by fastforce
    have "ok" using insert_masscan_ok [of "exec i" sch job "map mr_ip b" "mr_port r" d] assms ins by simp
    then have d1: "d1 = d\<lparr>db_masscan := db_masscan d1\<rparr>"
      "set (db_masscan d1) = set (db_masscan d) \<union> (\<lambda>ip. (job, ip, mr_port r)) ` set (map mr_ip b)"
      using insert_masscan_rows [OF ins] by blast+
    have jobs: "db_jobs d1 = db_jobs d" using arg_cong [OF d1(1), of db_jobs] by simp
    have step: "phase1_loop sch exec job i (map Batch (b # bs) @ [StreamDone]) d =
        phase1_loop sch exec job (Suc i) (map Batch bs @ [StreamDone]) d1"
      using ins Cons by simp
    have "hd b = r" using Cons by simp
    then show ?thesis
      unfolding step using Cons.IH [of "Suc i" d1] d1(2) jobs by auto
  qed
qed simp

text \<open>
  C39. What phase 1 of a worker stores: once masscan runs, every address it reports, but with
  the port of the first result of the message it came in, whatever port it was found on; and the
  worker is counted as done for the job, also when masscan cannot be started.
\<close>

theorem phase1_stores_first_port:
  assumes "\<forall>i b a. exec i b a = Committed" and "db_jobs d (mm_job_id msg) = Some j"
    and "run_streaming_start os (phase1_config msg rate) = None"
  shows "let d' = handle_masscan_msg sch exec os w rate msg (map Batch groups @ [StreamDone]) d
    in set (db_masscan d') = set (db_masscan d) \<union>
         {(mm_job_id msg, mr_ip r, mr_port (hd b)) | r b. b \<in> set groups \<and> r \<in> set b} \<and>
       db_jobs d' (mm_job_id msg) = Some (j\<lparr>jr_done_workers := jr_done_workers j + 1\<rparr>)"
  using assms(2,3) phase1_loop_rows [OF assms(1), of sch "mm_job_id msg" 0 groups "set_activity w ''masscan'' d"]
  by (simp add: handle_masscan_msg_def Let_def mark_phase1_done_def)

text \<open>Two results on different ports in one message: the second is stored with the first's port.\<close>

theorem phase1_stores_first_port_witness:
  "let msg = \<lparr>mm_job_id = ''j'', mm_worker = ''w'', mm_cidrs = [''1.1.1.0/24''], mm_ports = [443, 8443], mm_max_rate = 0\<rparr>;
       os = \<lparr>look_path = True, temp_dir = Some ''/tmp/x'', write_ok = True, start_ok = True, exec_masscan = (\<lambda>_ _. (False, None))\<rparr>;
       sch = \<lparr>new_job_row = (\<lambda>_. the (db_jobs demo_v2_db ''j'')), new_item_status = ''pending'', new_activity = None,
              masscan_unique = True, queue_unique = True\<rparr>
   in set (db_masscan (handle_masscan_msg sch (\<lambda>_ _ _. Committed) os ''w'' 2000 msg
        (map Batch [[\<lparr>mr_ip = ''1.1.1.1'', mr_port = 443\<rparr>, \<lparr>mr_ip = ''1.1.1.2'', mr_port = 8443\<rparr>]] @ [StreamDone]) demo_v2_db)) =
      {(''j'', ''1.1.1.1'', 443), (''j'', ''1.1.1.2'', 443)}"
proof -
  let ?msg = "\<lparr>mm_job_id = ''j'', mm_worker = ''w'', mm_cidrs = [''1.1.1.0/24''], mm_ports = [443, 8443], mm_max_rate = 0\<rparr>"
  let ?os = "\<lparr>look_path = True, temp_dir = Some ''/tmp/x'', write_ok = True, start_ok = True, exec_masscan = (\<lambda>_ _. (False, None))\<rparr>"
  let ?groups = "[[\<lparr>mr_ip = ''1.1.1.1'', mr_port = 443\<rparr>, \<lparr>mr_ip = ''1.1.1.2'', mr_port = 8443\<rparr>]]"
  have job: "db_jobs demo_v2_db (mm_job_id ?msg) = Some (the (db_jobs demo_v2_db ''j''))" by (simp add: demo_v2_db_def)
  have started: "run_streaming_start ?os (phase1_config ?msg 2000) = None"
    by (simp add: run_streaming_start_def scan_targets_def phase1_config_def)
  have one: "{(c, mr_ip r, mr_port (hd b)) | r b. b \<in> set [bb] \<and> r \<in> set b} = (\<lambda>r. (c, mr_ip r, mr_port (hd bb))) ` set bb"
    for c :: string and bb :: "masscan_result list" by auto
  have "{(mm_job_id ?msg, mr_ip r, mr_port (hd b)) | r b. b \<in> set ?groups \<and> r \<in> set b} =
      {(''j'', ''1.1.1.1'', 443), (''j'', ''1.1.1.2'', 443)}"
    unfolding one by simp
  moreover have "set (db_masscan demo_v2_db) = {}" by (simp add: demo_v2_db_def)
  moreover note phase1_stores_first_port [OF _ job started, of "\<lambda>_ _ _. Committed" _ "''w''" ?groups, unfolded Let_def]
  ultimately show ?thesis unfolding Let_def by simp
qed

end
