(* ===== verification/V2System.thy ===== *)
theory V2System
  imports WorkerV2
begin

text \<open>
  The second version as a whole: the master's requests and watchers and the statements of any
  number of workers, each one step over the shared tables of \<open>PgStore\<close>, in any order and with
  any arguments (a process acts on what it read before, which may be stale). The schema is the
  parameter of \<open>PgStore\<close>. \<open>DeregisterWorker\<close> is no step: nothing in the program calls it.
\<close>

section \<open>Steps\<close>

inductive v2_step :: "schema \<Rightarrow> db \<Rightarrow> db \<Rightarrow> bool" for sch where
  v2_create: "v2_step sch d (handle_create_job sch nanos asns ports mode name d)"
| v2_start: "v2_step sch d (snd (start_job arrivals order ws job ports d))"
| v2_phase1: "v2_step sch d (snd (phase1_row sch (job, finished, whole) d))"
| v2_recover: "{w. is_worker_online d w} \<subseteq> set ws \<Longrightarrow> v2_step sch d (recover_offline ws d)"
| v2_phase2: "v2_step sch d (phase2_row hs job d)"
| v2_cancel: "v2_step sch d (cancel_job job d)"
| v2_delete: "v2_step sch d (delete_job job d)"
| v2_cleanup: "v2_step sch d (master_cleanup d)"
| v2_register: "v2_step sch d (register_worker now w name cpu mem conc rate d)"
| v2_heartbeat: "v2_step sch d (db_heartbeat sch now w job d)"
| v2_activity: "v2_step sch d (set_activity w a d)"
| v2_insert: "v2_step sch d (snd (insert_masscan_results sch exec job ips port d))"
| v2_phase1_done: "v2_step sch d (mark_phase1_done job d)"
| v2_fetch: "db_workers d w \<noteq> None \<Longrightarrow> may_fetch job limit locked ids d \<Longrightarrow>
     v2_step sch d (snd (fetch_work_batch ids w d))"
| v2_scanned: "v2_step sch d (mark_work_scanned_batch ok job items d)"
| v2_result: "v2_step sch d (insert_result job ip port status colo country asn delay city org d)"
| v2_colo: "v2_step sch d (set_colo colo job ip port d)"

definition v2_initial :: "db \<Rightarrow> bool" where
  "v2_initial d \<longleftrightarrow> db_workers d = Map.empty \<and> db_queue d = []"

abbreviation v2_reachable :: "schema \<Rightarrow> db \<Rightarrow> bool" where
  "v2_reachable sch \<equiv> reach v2_initial (v2_step sch)"

section \<open>The invariant\<close>

text \<open>The items of the queue have their own identifiers, and their own hosts when the schema says so.\<close>

definition queue_ok :: "schema \<Rightarrow> db \<Rightarrow> bool" where
  "queue_ok sch d \<longleftrightarrow> distinct (map qr_id (db_queue d)) \<and> (\<forall>q \<in> set (db_queue d). qr_id q < db_next d) \<and>
     (queue_unique sch \<longrightarrow> distinct (map qr_host (db_queue d)))"

definition row_ok :: "db \<Rightarrow> queue_row \<Rightarrow> bool" where
  "row_ok d q \<longleftrightarrow> qr_status q \<in> {''pending'', ''processing'', ''done''} \<and>
     (qr_status q = ''processing'' \<longrightarrow> (\<exists>w. qr_worker q = Some w \<and> db_workers d w \<noteq> None))"

definition all_online :: "db \<Rightarrow> bool" where
  "all_online d \<longleftrightarrow> (\<forall>w r. db_workers d w = Some r \<longrightarrow> wr_status r = ''online'')"

definition v2_ok :: "schema \<Rightarrow> db \<Rightarrow> bool" where
  "v2_ok sch d \<longleftrightarrow> all_online d \<and> queue_ok sch d \<and> (\<forall>q \<in> set (db_queue d). row_ok d q)"

text \<open>Every update of the queue changes rows in place and keeps them well-formed.\<close>

definition row_update :: "db \<Rightarrow> (queue_row \<Rightarrow> queue_row) \<Rightarrow> bool" where
  "row_update d f \<longleftrightarrow> (\<forall>q. qr_id (f q) = qr_id q \<and> qr_host (f q) = qr_host q \<and> (row_ok d q \<longrightarrow> row_ok d (f q)))"

lemma v2_ok_rows:
  assumes "v2_ok sch d" "row_update d f"
    and "db_queue d' = map f (db_queue d)" "db_workers d' = db_workers d" "db_next d' = db_next d"
  shows "v2_ok sch d'"
proof -
  have f: "qr_id \<circ> f = qr_id" "qr_host \<circ> f = qr_host" "\<And>q. row_ok d q \<Longrightarrow> row_ok d (f q)" "\<And>q. qr_id (f q) = qr_id q"
    using assms(2) by (auto simp: row_update_def)
  have "row_ok d' = row_ok d" "all_online d' = all_online d" using assms(4) by (auto simp: row_ok_def all_online_def)
  then show ?thesis using assms(1,3,5) f by (auto simp: v2_ok_def queue_ok_def)
qed

lemma v2_ok_same:
  "v2_ok sch d \<Longrightarrow> db_queue d' = db_queue d \<Longrightarrow> db_workers d' = db_workers d \<Longrightarrow> db_next d' = db_next d \<Longrightarrow> v2_ok sch d'"
  by (rule v2_ok_rows [where f = "\<lambda>q. q"]) (simp_all add: row_update_def)

lemma row_updates:
  "row_update d (\<lambda>q. if p q then item_done q else q)"
  "row_update d (\<lambda>q. if p q then item_reset q else q)"
  "db_workers d w \<noteq> None \<Longrightarrow> row_update d (\<lambda>q. if p q then q\<lparr>qr_status := ''processing'', qr_worker := Some w\<rparr> else q)"
  by (auto simp: row_update_def row_ok_def)

lemma v2_ok_update:
  assumes "v2_ok sch d" "row_update d (\<lambda>q. if p q then f q else q)"
  shows "v2_ok sch (update_queue p f d)"
  by (rule v2_ok_rows [OF assms]) simp_all

lemma update_job_phase_fields [simp]:
  "db_queue (update_job_phase job phase n d) = db_queue d" "db_workers (update_job_phase job phase n d) = db_workers d"
  "db_next (update_job_phase job phase n d) = db_next d" "db_masscan (update_job_phase job phase n d) = db_masscan d"
  "db_results (update_job_phase job phase n d) = db_results d"
  by (simp_all add: update_job_phase_def Let_def)

section \<open>Filling the queue\<close>

definition new_item :: "schema \<Rightarrow> nat \<Rightarrow> host \<Rightarrow> queue_row" where
  "new_item sch i h = \<lparr>qr_id = i, qr_host = h, qr_status = new_item_status sch, qr_worker = None\<rparr>"

lemma enqueue_host_step:
  "enqueue_hosts sch (h # hs) d =
     enqueue_hosts sch hs (if queue_unique sch \<and> h \<in> qr_host ` set (db_queue d) then d
       else d\<lparr>db_queue := db_queue d @ [new_item sch (db_next d) h], db_next := db_next d + 1\<rparr>)"
  by (simp add: new_item_def)

lemma enqueue_hosts_rows:
  "\<exists>new. db_queue (enqueue_hosts sch hs d) = db_queue d @ new \<and>
     (\<forall>q \<in> set new. qr_status q = new_item_status sch \<and> qr_worker q = None) \<and>
     qr_host ` set (db_queue d @ new) = qr_host ` set (db_queue d) \<union> set hs \<and>
     db_workers (enqueue_hosts sch hs d) = db_workers d \<and> db_jobs (enqueue_hosts sch hs d) = db_jobs d \<and>
     db_masscan (enqueue_hosts sch hs d) = db_masscan d"
proof (induction hs arbitrary: d)
  case (Cons h hs)
  show ?case
  proof (cases "queue_unique sch \<and> h \<in> qr_host ` set (db_queue d)")
    case True
    then have "qr_host ` set (db_queue d) \<union> set hs = qr_host ` set (db_queue d) \<union> set (h # hs)" by auto
    moreover have "enqueue_hosts sch (h # hs) d = enqueue_hosts sch hs d" using True by simp
    ultimately show ?thesis using Cons.IH [of d] by presburger
  next
    case False
    let ?d = "d\<lparr>db_queue := db_queue d @ [new_item sch (db_next d) h], db_next := db_next d + 1\<rparr>"
    have step: "enqueue_hosts sch (h # hs) d = enqueue_hosts sch hs ?d"
      using False by (simp only: enqueue_host_step if_False)
    obtain new where new: "db_queue (enqueue_hosts sch hs ?d) = db_queue ?d @ new"
      "\<forall>q \<in> set new. qr_status q = new_item_status sch \<and> qr_worker q = None"
      "qr_host ` set (db_queue ?d @ new) = qr_host ` set (db_queue ?d) \<union> set hs"
      "db_workers (enqueue_hosts sch hs ?d) = db_workers ?d" "db_jobs (enqueue_hosts sch hs ?d) = db_jobs ?d"
      "db_masscan (enqueue_hosts sch hs ?d) = db_masscan ?d" using Cons.IH [of ?d] by blast
    show ?thesis
      unfolding step using new by (intro exI [of _ "new_item sch (db_next d) h # new"]) (auto simp: new_item_def)
  qed
qed simp

lemma enqueue_queue_ok: "queue_ok sch d \<Longrightarrow> queue_ok sch (enqueue_hosts sch hs d)"
proof (induction hs arbitrary: d)
  case (Cons h hs)
  have "queue_ok sch (if queue_unique sch \<and> h \<in> qr_host ` set (db_queue d) then d
      else d\<lparr>db_queue := db_queue d @ [new_item sch (db_next d) h], db_next := db_next d + 1\<rparr>)"
    using Cons.prems by (auto simp: queue_ok_def new_item_def)
  then show ?case unfolding enqueue_host_step by (rule Cons.IH)
qed simp

lemma enqueue_ok:
  assumes "new_item_status sch = ''pending''" "v2_ok sch d"
  shows "v2_ok sch (enqueue_hosts sch hs d)"
proof -
  obtain new where new: "db_queue (enqueue_hosts sch hs d) = db_queue d @ new"
    "\<forall>q \<in> set new. qr_status q = new_item_status sch \<and> qr_worker q = None"
    "db_workers (enqueue_hosts sch hs d) = db_workers d"
    using enqueue_hosts_rows [of sch hs d] by blast
  have "row_ok (enqueue_hosts sch hs d) = row_ok d" "all_online (enqueue_hosts sch hs d) = all_online d"
    using new(3) by (auto simp: row_ok_def all_online_def)
  moreover have "\<forall>q \<in> set new. row_ok d q" using new(2) assms(1) by (auto simp: row_ok_def)
  ultimately show ?thesis
    using assms(2) enqueue_queue_ok [of sch d hs] new(1) by (auto simp: v2_ok_def)
qed

section \<open>Every step keeps it\<close>

lemma start_job_fields:
  "db_queue (snd (start_job arrivals order ws job ports d)) = db_queue d"
  "db_workers (snd (start_job arrivals order ws job ports d)) = db_workers d"
  "db_next (snd (start_job arrivals order ws job ports d)) = db_next d"
  by (simp_all add: start_job_def activate_def Let_def split: sum.split)

lemma batch_update_ok: "v2_ok sch d \<Longrightarrow> v2_ok sch (mark_work_scanned_batch ok job items d)"
proof -
  assume d: "v2_ok sch d"
  have "v2_ok sch (mark_hosts H d)" for H
    unfolding mark_hosts_def by (rule v2_ok_update [OF d row_updates(1)])
  moreover have "mark_work_scanned_batch False job items d = d" by (simp add: mark_work_scanned_batch_def)
  ultimately show ?thesis using d by (cases ok) (simp_all add: mark_batch_hosts)
qed

lemma v2_step_ok:
  assumes pending: "new_item_status sch = ''pending''"
  shows "v2_step sch d d' \<Longrightarrow> v2_ok sch d \<Longrightarrow> v2_ok sch d'"
proof (induction rule: v2_step.induct)
  case (v2_create d nanos asns ports mode name)
  then show ?case by (rule v2_ok_same) (simp_all add: handle_create_job_def create_job_def)
next
  case (v2_start d arrivals order ws job ports)
  then show ?case by (rule v2_ok_same) (rule start_job_fields)+
next
  case (v2_phase1 d job finished whole)
  have "v2_ok sch (populate_work_queue sch job d)"
    unfolding populate_work_queue_def by (rule enqueue_ok [OF pending v2_phase1])
  then have "v2_ok sch (update_job_phase job ''phase2'' n (populate_work_queue sch job d))" for n
    by (rule v2_ok_same) simp_all
  then show ?case using v2_phase1 by (simp add: phase1_row_def Let_def)
next
  case (v2_recover d ws)
  then show ?case unfolding recover_offline_def by (intro v2_ok_update row_updates)
next
  case (v2_phase2 d hs job)
  then show ?case by (elim v2_ok_same) (simp_all add: phase2_row_def Let_def)
next
  case (v2_cancel d job)
  have "v2_ok sch (modify_job f job d)" for f using v2_cancel by (rule v2_ok_same) simp_all
  then show ?case unfolding cancel_job_def by (intro v2_ok_update row_updates)
next
  case (v2_delete d job)
  then show ?case
    by (auto simp: delete_job_def v2_ok_def queue_ok_def all_online_def row_ok_def distinct_map_filter)
next
  case (v2_cleanup d)
  then show ?case by (rule v2_ok_same) (simp_all add: master_cleanup_def Let_def)
next
  case (v2_register d now w name cpu mem conc rate)
  let ?d = "register_worker now w name cpu mem conc rate d"
  have "db_workers d v \<noteq> None \<Longrightarrow> db_workers ?d v \<noteq> None" for v by (simp add: register_worker_def)
  then have "row_ok d q \<Longrightarrow> row_ok ?d q" for q unfolding row_ok_def by blast
  moreover have "all_online d \<Longrightarrow> all_online ?d" by (simp add: all_online_def register_worker_def)
  moreover have "db_queue ?d = db_queue d" "db_next ?d = db_next d" by (simp_all add: register_worker_def)
  ultimately show ?case using v2_register by (simp add: v2_ok_def queue_ok_def)
next
  case (v2_heartbeat d now w job)
  then show ?case by (rule v2_ok_same) (simp_all add: db_heartbeat_def)
next
  case (v2_activity d w a)
  then show ?case by (rule v2_ok_same) simp_all
next
  case (v2_insert d exec job ips port)
  obtain ok d' where d': "insert_masscan_results sch exec job ips port d = (ok, d')" by fastforce
  then have "d' = d\<lparr>db_masscan := db_masscan d'\<rparr>" using insert_masscan_rows by blast
  then have "db_queue d' = db_queue d" "db_workers d' = db_workers d" "db_next d' = db_next d"
    by (metis db.select_convs db.surjective db.update_convs(4))+
  then show ?case using v2_ok_same [OF v2_insert] d' by simp
next
  case (v2_phase1_done d job)
  then show ?case unfolding mark_phase1_done_def by (rule v2_ok_same) simp_all
next
  case (v2_fetch d w job limit locked ids)
  then show ?case by (simp add: fetch_work_batch_def v2_ok_update row_updates)
next
  case (v2_scanned d ok job items)
  then show ?case by (rule batch_update_ok)
next
  case (v2_result d job ip port status colo country asn delay city org)
  have "v2_ok sch (d\<lparr>db_results := m\<rparr>)" for m using v2_result by (rule v2_ok_same) simp_all
  then show ?case unfolding insert_result_def by (intro v2_ok_update row_updates)
next
  case (v2_colo d colo job ip port)
  then show ?case by (rule v2_ok_same) (simp_all add: set_colo_def)
qed

lemma v2_initial_ok: "v2_initial d \<Longrightarrow> v2_ok sch d"
  by (simp add: v2_initial_def v2_ok_def queue_ok_def all_online_def)

text \<open>Schemas in which new items are pending, as the code expects; other schemas keep the rest.\<close>

interpretation v2m: machine_invariant v2_initial "v2_step (sch\<lparr>new_item_status := ''pending''\<rparr>)"
    "v2_ok (sch\<lparr>new_item_status := ''pending''\<rparr>)" for sch
  by unfold_locales (auto intro: v2_initial_ok v2_step_ok)

lemma v2_reachable_ok:
  assumes "new_item_status sch = ''pending''" "v2_reachable sch d"
  shows "v2_ok sch d"
proof -
  have "sch = sch\<lparr>new_item_status := ''pending''\<rparr>" using assms(1) by simp
  then show ?thesis using v2m.inv_reach [of sch d] assms(2) by simp
qed

section \<open>Properties\<close>

text \<open>Nothing is ever reset for a worker that is gone.\<close>

lemma recover_online:
  assumes "all_online d" "\<forall>q \<in> set (db_queue d). row_ok d q" "{w. is_worker_online d w} \<subseteq> set ws"
  shows "recover_offline ws d = d"
proof -
  have "\<not> (qr_status q = ''processing'' \<and> (case qr_worker q of None \<Rightarrow> filter (is_worker_online d) ws = []
      | Some w \<Rightarrow> w \<notin> set (filter (is_worker_online d) ws)))" if q: "q \<in> set (db_queue d)" for q
  proof (cases "qr_status q = ''processing''")
    case True
    then obtain w r where "qr_worker q = Some w" "db_workers d w = Some r"
      using assms(2) q by (auto simp: row_ok_def)
    moreover then have "is_worker_online d w" using assms(1) by (auto simp: is_worker_online_def all_online_def)
    ultimately show ?thesis using assms(3) by auto
  qed simp
  then have "map (\<lambda>q. if qr_status q = ''processing'' \<and> (case qr_worker q of None \<Rightarrow> filter (is_worker_online d) ws = []
      | Some w \<Rightarrow> w \<notin> set (filter (is_worker_online d) ws)) then item_reset q else q) (db_queue d) = db_queue d"
    by (intro map_idI) (simp only: if_False)
  then show ?thesis unfolding recover_offline_def update_queue_def by simp
qed

text \<open>The watcher's round: the recovery, then the row of the job; \<open>ws\<close> and \<open>keys\<close> as above.\<close>

definition master_round :: "string list \<Rightarrow> (db \<Rightarrow> host list) \<Rightarrow> string \<Rightarrow> db \<Rightarrow> db" where
  "master_round ws keys job d =
     (let d1 = recover_offline ws d in if job \<in> set (phase2_rows [job] d1) then phase2_row (keys d1) job d1 else d1)"

lemma count_undone:
  "q \<in> set (db_queue d) \<Longrightarrow> fst (qr_host q) = job \<Longrightarrow> qr_status q \<noteq> ''done'' \<Longrightarrow>
   0 < count_queue (\<lambda>q. qr_status q \<noteq> ''done'') job d"
  by (auto simp: count_queue_def filter_empty_conv)

text \<open>With an item being processed by nobody the watcher's round changes nothing.\<close>

lemma master_round_idle:
  assumes "v2_ok sch d" "{w. is_worker_online d w} \<subseteq> set ws"
    and "q \<in> set (db_queue d)" "fst (qr_host q) = job" "qr_status q = ''processing''"
  shows "master_round ws keys job d = d"
proof -
  have "recover_offline ws d = d" using assms(1,2) by (intro recover_online) (auto simp: v2_ok_def)
  moreover have "0 < count_queue (\<lambda>q. qr_status q \<noteq> ''done'') job d" using assms(3-5) by (intro count_undone) auto
  ultimately show ?thesis by (simp add: master_round_def phase2_row_def Let_def)
qed

text \<open>A round of checks leaves an item alone that was not fetched.\<close>

lemma scan_keeps_item:
  assumes q: "q \<in> set (db_queue d)" "qr_status q = ''processing''" "distinct (map qr_host (db_queue d))"
    and ids: "may_fetch job limit {} ids d" "distinct (map qr_id (db_queue d))" "mset fin = mset items"
    and run: "fetch_work_batch ids w d = (items, d1)" "scan_batch check job fin hits d1 = (hits', d2)"
  shows "q \<in> set (db_queue d2) \<and> db_jobs d2 = db_jobs d \<and> db_workers d2 = db_workers d \<and> q \<in> set (db_queue d1)"
proof -
  note f = fetch_hosts [OF ids(1,2) run(1)]
  have fin: "item_hosts job fin = item_hosts job items" using mset_eq_setD [OF ids(3)] by (simp add: item_hosts_def)
  note eff = scan_batch_effect [OF run(2), unfolded fin]
  have notin: "qr_id q \<notin> ids" using f(2) q(1,2) by (auto simp: pending_rows_def)
  have "qr_host q \<notin> item_hosts job items"
  proof
    assume "qr_host q \<in> item_hosts job items"
    then obtain q' where q': "q' \<in> set (db_queue d)" "qr_host q' = qr_host q" "qr_id q' \<in> ids"
      unfolding f(1) by (auto simp: pending_rows_def)
    then have "q' = q" using q(1,3) by (metis distinct_map inj_onD)
    then show False using q'(3) notin by simp
  qed
  moreover have "q \<in> set (db_queue d1)" using q(1) notin by (force simp: f(3))
  ultimately show ?thesis
    using eff(1) f(3) by (force simp: image_iff)
qed

lemma blocked_forever:
  assumes env: "\<forall>k d. p2_others env k d = master_round ws keys job d"
      "\<forall>k d. may_fetch job limit {} (p2_pick env k d) d" "\<forall>k items. mset (p2_finish env k items) = mset items"
    and sch: "new_item_status sch = ''pending''" "queue_unique sch"
    and d: "v2_ok sch d" "\<not> is_job_cancelled job d" "db_workers d w \<noteq> None"
      "q \<in> set (db_queue d)" "fst (qr_host q) = job" "qr_status q = ''processing''"
      "{v. is_worker_online d v} \<subseteq> set ws"
  shows "phase2a fuel env w job k hits d = None"
  using d(1-4,7)
proof (induction fuel arbitrary: k hits d)
  case (Suc fuel)
  have others: "p2_others env k d = d"
    using env(1) master_round_idle [OF Suc.prems(1,5,4) d(5,6)] by simp
  obtain items d1 where f: "fetch_work_batch (p2_pick env k d) w d = (items, d1)" by fastforce
  obtain hits2 d2 where b: "scan_batch (p2_check env) job (p2_finish env k items) hits d1 = (hits2, d2)" by fastforce
  have dist: "distinct (map qr_host (db_queue d))" "distinct (map qr_id (db_queue d))"
    using Suc.prems(1) sch(2) by (auto simp: v2_ok_def queue_ok_def)
  have pick: "may_fetch job limit {} (p2_pick env k d) d" and fin: "mset (p2_finish env k items) = mset items"
    using env(2,3) by auto
  note keep = scan_keeps_item [OF Suc.prems(4) d(6) dist(1) pick dist(2) fin f b]
  have "v2_step sch d d1" using v2_fetch [OF Suc.prems(3) pick, of sch] f by simp
  then have ok1: "v2_ok sch d1" by (rule v2_step_ok [OF sch(1) _ Suc.prems(1)])
  have d1: "db_jobs d1 = db_jobs d" "db_workers d1 = db_workers d" using f by (auto simp: fetch_work_batch_def)
  have canc: "is_job_cancelled job d' = is_job_cancelled job d" if "db_jobs d' = db_jobs d" for d'
    using that by (simp add: is_job_cancelled_def job_column_def)
  have onl: "{v. is_worker_online d' v} \<subseteq> set ws" if "db_workers d' = db_workers d" for d'
    using that Suc.prems(5) by (simp add: is_worker_online_def)
  show ?case
  proof (cases "items = []")
    case True
    have "0 < count_queue (\<lambda>q. qr_status q \<noteq> ''done'') job d1" using keep d(5,6) by (intro count_undone) auto
    then have "phase2a (Suc fuel) env w job k hits d = phase2a fuel env w job (Suc k) hits d1"
      using True f others Suc.prems(2) by (simp add: Let_def)
    then show ?thesis
      using Suc.IH [OF ok1, of "Suc k" hits] canc [OF d1(1)] onl [OF d1(2)] d1(2) keep Suc.prems(2,3) by simp
  next
    case False
    have "v2_ok sch (mark_hosts (item_hosts job (p2_finish env k items)) d1)"
      unfolding mark_hosts_def by (rule v2_ok_update [OF ok1 row_updates(1)])
    then have ok2: "v2_ok sch d2"
      unfolding scan_batch_effect(1) [OF b] by (rule v2_ok_same) simp_all
    have "phase2a (Suc fuel) env w job k hits d = phase2a fuel env w job (Suc k) hits2 d2"
      using False f b others Suc.prems(2) by (simp add: Let_def)
    then show ?thesis
      using Suc.IH [OF ok2, of "Suc k" hits2] canc onl keep Suc.prems(2,3) by simp
  qed
qed simp

text \<open>
  C8. A worker that dies with an item in its hands blocks the job: nothing ever sets a worker
  offline, so the watcher's recovery finds nothing to reset. In every reachable state with an
  item in processing, as long as its worker does nothing and the job is not cancelled, the
  watcher's rounds change nothing and another worker's phase 2 never comes to an end, however
  long it runs: it checks what is pending and then waits for the item for ever.
\<close>

theorem crashed_worker_blocks_job:
  assumes "v2_reachable sch d" and "new_item_status sch = ''pending''" "queue_unique sch"
    and "q \<in> set (db_queue d)" "fst (qr_host q) = job" "qr_status q = ''processing''"
    and "\<not> is_job_cancelled job d" "db_workers d w \<noteq> None" "{v. is_worker_online d v} \<subseteq> set ws"
    and "\<forall>k d. p2_others env k d = master_round ws keys job d" "\<forall>k d. may_fetch job limit {} (p2_pick env k d) d"
      "\<forall>k items. mset (p2_finish env k items) = mset items"
  shows "(\<forall>fuel. phase2a fuel env w job k hits d = None) \<and> master_round ws keys job d = d"
proof -
  have ok: "v2_ok sch d" by (rule v2_reachable_ok [OF assms(2,1)])
  show ?thesis
    using blocked_forever [OF assms(10-12,2,3) ok assms(7,8,4,5,6,9)] master_round_idle [OF ok assms(9,4,5,6)] by blast
qed

text \<open>One worker fetched the only item, and another one looks for work.\<close>

definition demo_schema :: schema where
  "demo_schema = \<lparr>new_job_row = (\<lambda>_. the (db_jobs demo_v2_db ''j'')), new_item_status = ''pending'', new_activity = None,
     masscan_unique = True, queue_unique = True\<rparr>"

definition demo_before :: db where
  "demo_before = demo_v2_db\<lparr>db_masscan := [(''j'', ''1.1.1.1'', 443)], db_queue := [], db_next := 0\<rparr>"

definition demo_registered :: db where
  "demo_registered = register_worker 0 ''w2'' ''n'' 1 1 500 2000 (register_worker 0 ''w1'' ''n'' 1 1 500 2000 demo_before)"

definition demo_fetched :: db where
  "demo_fetched = snd (fetch_work_batch {0} ''w1'' (snd (phase1_row demo_schema (''j'', 1, 1) demo_registered)))"

lemma demo_registered_fields:
  "db_queue demo_registered = []" "db_next demo_registered = 0" "db_masscan demo_registered = [(''j'', ''1.1.1.1'', 443)]"
  "is_worker_online demo_registered v \<longleftrightarrow> v = ''w1'' \<or> v = ''w2''" "db_workers demo_registered ''w2'' \<noteq> None"
  "db_workers demo_registered ''w1'' \<noteq> None" "db_jobs demo_registered = db_jobs demo_v2_db"
  by (auto simp: demo_registered_def demo_before_def demo_v2_db_def register_worker_def is_worker_online_def)

lemma demo_phase1_queue:
  "db_queue (snd (phase1_row demo_schema (''j'', 1, 1) demo_registered)) =
     [\<lparr>qr_id = 0, qr_host = (''j'', ''1.1.1.1'', 443), qr_status = ''pending'', qr_worker = None\<rparr>]"
  "db_workers (snd (phase1_row demo_schema (''j'', 1, 1) demo_registered)) = db_workers demo_registered"
  by (simp_all add: phase1_row_def populate_work_queue_def Let_def demo_registered_fields demo_schema_def)

lemma demo_registered_reachable: "v2_reachable demo_schema demo_registered"
proof -
  have "reach v2_initial (v2_step demo_schema) demo_before"
    by (rule reach.reach_init) (simp add: v2_initial_def demo_before_def demo_v2_db_def)
  moreover have reg: "v2_reachable sch (register_worker 0 w ''n'' 1 1 500 2000 d)" if "v2_reachable sch d" for sch w d
    using that v2_register by (rule reach_step)
  ultimately show ?thesis unfolding demo_registered_def by blast
qed

lemma demo_phase1_reachable: "v2_reachable demo_schema (snd (phase1_row demo_schema (''j'', 1, 1) demo_registered))"
  using demo_registered_reachable v2_phase1 by (rule reach_step)

lemma demo_fetched_reachable: "v2_reachable demo_schema demo_fetched"
proof -
  have "may_fetch ''j'' 1 {} {0} (snd (phase1_row demo_schema (''j'', 1, 1) demo_registered))"
    by (simp add: may_fetch_def pending_ids_rows pending_rows_def demo_phase1_queue)
  then have "v2_step demo_schema (snd (phase1_row demo_schema (''j'', 1, 1) demo_registered)) demo_fetched"
    unfolding demo_fetched_def by (intro v2_fetch) (simp_all add: demo_phase1_queue demo_registered_fields)
  with demo_phase1_reachable show ?thesis by (rule reach_step)
qed

theorem crashed_worker_blocks_job_witness:
  "phase2a 1000 (demo_p2\<lparr>p2_others := (\<lambda>k. master_round [''w1'', ''w2''] (\<lambda>_. []) ''j'')\<rparr>) ''w2'' ''j'' 0 0 demo_fetched = None"
proof -
  let ?env = "demo_p2\<lparr>p2_others := (\<lambda>k. master_round [''w1'', ''w2''] (\<lambda>_. []) ''j'')\<rparr>"
  let ?q = "\<lparr>qr_id = 0, qr_host = (''j'', ''1.1.1.1'', 443), qr_status = ''processing'', qr_worker = Some ''w1''\<rparr>"
  have fields: "db_queue demo_fetched = [?q]" "db_workers demo_fetched = db_workers demo_registered"
    by (simp_all add: demo_fetched_def fetch_work_batch_def demo_phase1_queue)
  have sch: "new_item_status demo_schema = ''pending''" "queue_unique demo_schema" by (simp_all add: demo_schema_def)
  have q: "?q \<in> set (db_queue demo_fetched)" "fst (qr_host ?q) = ''j''" "qr_status ?q = ''processing''"
    by (simp_all add: fields)
  have job: "\<not> is_job_cancelled ''j'' demo_fetched"
    by (simp add: is_job_cancelled_def job_column_def demo_fetched_def fetch_work_batch_def phase1_row_def Let_def
        update_job_phase_def populate_work_queue_def demo_registered_fields demo_schema_def demo_v2_db_def)
  have w: "db_workers demo_fetched ''w2'' \<noteq> None" "{v. is_worker_online demo_fetched v} \<subseteq> set [''w1'', ''w2'']"
    using demo_registered_fields(4,5) by (auto simp: fields is_worker_online_def)
  have env: "\<forall>k d. p2_others ?env k d = master_round [''w1'', ''w2''] (\<lambda>_. []) ''j'' d"
    "\<forall>k d. may_fetch ''j'' 2 {} (p2_pick ?env k d) d" "\<forall>k items. mset (p2_finish ?env k items) = mset items"
    using demo_p2_legal by (simp_all add: legal_env_def)
  show ?thesis
    using crashed_worker_blocks_job [OF demo_fetched_reachable sch q job w env, of 0 0] by blast
qed

text \<open>The hosts of the items of a job.\<close>

definition job_hosts :: "string \<Rightarrow> db \<Rightarrow> host set" where
  "job_hosts job d = {h \<in> qr_host ` set (db_queue d). fst h = job}"

lemma count_job_hosts:
  assumes "distinct (map qr_host (db_queue d))"
  shows "count_queue (\<lambda>_. True) job d = int (card (job_hosts job d))"
proof -
  have "job_hosts job d = set (map qr_host (filter (\<lambda>q. fst (qr_host q) = job) (db_queue d)))"
    by (auto simp: job_hosts_def)
  moreover have "distinct (map qr_host (filter (\<lambda>q. fst (qr_host q) = job) (db_queue d)))"
    using assms by (rule distinct_map_filter)
  ultimately have "card (job_hosts job d) = length (filter (\<lambda>q. fst (qr_host q) = job) (db_queue d))"
    by (metis distinct_card length_map)
  then show ?thesis by (simp add: count_queue_def)
qed

text \<open>
  C17. The change from phase 1 to phase 2, in every reachable state: as long as not all workers
  have reported nothing changes and nobody is notified. Then the queue gets exactly one item for
  every host found for the job, the items already there are kept as they are (so a repeated round
  adds nothing), the new ones are pending, and the job's total is the number of its items.
\<close>

theorem phase1_fills_queue:
  assumes "v2_reachable sch d" and "new_item_status sch = ''pending''" "queue_unique sch" and "db_jobs d job = Some j"
    and "phase1_row sch (job, finished, whole) d = (notify, d')"
  shows "notify = (0 < finished \<and> whole \<le> finished) \<and>
    (if notify then
       (\<exists>new. db_queue d' = db_queue d @ new \<and> (\<forall>q \<in> set new. qr_status q = ''pending'' \<and> qr_worker q = None)) \<and>
       distinct (map qr_host (db_queue d')) \<and>
       job_hosts job d' = job_hosts job d \<union> {h \<in> set (db_masscan d). fst h = job} \<and>
       db_jobs d' job = Some (j\<lparr>jr_phase := ''phase2'', jr_total_items := int (card (job_hosts job d'))\<rparr>)
     else d' = d)"
proof (cases "0 < finished \<and> whole \<le> finished")
  case True
  let ?d1 = "populate_work_queue sch job d" and ?hs = "filter (\<lambda>h. fst h = job) (db_masscan d)"
  obtain new where new: "db_queue ?d1 = db_queue d @ new"
    "\<forall>q \<in> set new. qr_status q = new_item_status sch \<and> qr_worker q = None"
    "qr_host ` set (db_queue d @ new) = qr_host ` set (db_queue d) \<union> set ?hs" "db_jobs ?d1 = db_jobs d"
    unfolding populate_work_queue_def using enqueue_hosts_rows [of sch ?hs d] by blast
  have d': "notify" "d' = update_job_phase job ''phase2'' (count_queue (\<lambda>_. True) job ?d1) ?d1"
    using assms(5) True by (simp_all add: phase1_row_def Let_def)
  have "queue_ok sch ?d1"
    unfolding populate_work_queue_def using v2_reachable_ok [OF assms(2,1)] by (intro enqueue_queue_ok) (simp add: v2_ok_def)
  then have dist: "distinct (map qr_host (db_queue d'))" using assms(3) by (simp add: d'(2) queue_ok_def)
  then have "count_queue (\<lambda>_. True) job ?d1 = int (card (job_hosts job d'))"
    using count_job_hosts [of d' job] by (simp add: d'(2) count_queue_def)
  then have "db_jobs d' job = Some (j\<lparr>jr_phase := ''phase2'', jr_total_items := int (card (job_hosts job d'))\<rparr>)"
    using d'(2) assms(4) new(4) by (simp add: update_job_phase_def Let_def)
  moreover have "job_hosts job d' = job_hosts job d \<union> {h \<in> set (db_masscan d). fst h = job}"
    using new(1,3) by (auto simp: job_hosts_def d'(2))
  moreover have "db_queue d' = db_queue d @ new" using new(1) by (simp add: d'(2))
  ultimately show ?thesis using True d'(1) dist new(2) assms(2) by auto
next
  case False
  then show ?thesis using assms(5) by (auto simp: phase1_row_def)
qed

theorem phase1_fills_queue_witness:
  "let d' = snd (phase1_row demo_schema (''j'', 1, 1) demo_registered)
   in job_hosts ''j'' d' = {(''j'', ''1.1.1.1'', 443)} \<and> distinct (map qr_host (db_queue d')) \<and>
      map_option jr_total_items (db_jobs d' ''j'') = Some 1"
proof -
  obtain notify d' where run: "phase1_row demo_schema (''j'', 1, 1) demo_registered = (notify, d')" by fastforce
  have sch: "new_item_status demo_schema = ''pending''" "queue_unique demo_schema" by (simp_all add: demo_schema_def)
  have job: "db_jobs demo_registered ''j'' = Some (the (db_jobs demo_v2_db ''j''))"
    by (simp add: demo_registered_fields demo_v2_db_def)
  have "job_hosts ''j'' demo_registered = {}" "{h \<in> set (db_masscan demo_registered). fst h = ''j''} = {(''j'', ''1.1.1.1'', 443)}"
    by (auto simp: job_hosts_def demo_registered_fields)
  then show ?thesis
    using phase1_fills_queue [OF demo_registered_reachable sch job run] by (simp add: run)
qed



text \<open>
  C20. The tables are well-formed in every reachable state: identifiers of queue items are distinct
  and below the next one, hosts are distinct, a status is one of three, an item in processing
  names a registered worker, and every registered worker is online, whether it is alive or not.
\<close>

theorem tables_well_formed:
  assumes "v2_reachable sch d" and "new_item_status sch = ''pending''" "queue_unique sch"
  shows "distinct (map qr_id (db_queue d)) \<and> distinct (map qr_host (db_queue d)) \<and>
    (\<forall>q \<in> set (db_queue d). qr_id q < db_next d \<and> qr_status q \<in> {''pending'', ''processing'', ''done''} \<and>
       (qr_status q = ''processing'' \<longrightarrow> (\<exists>w. qr_worker q = Some w \<and> is_worker_online d w))) \<and>
    (\<forall>w. db_workers d w \<noteq> None \<longrightarrow> is_worker_online d w)"
proof -
  have ok: "all_online d" "queue_ok sch d" "\<forall>q \<in> set (db_queue d). row_ok d q"
    using v2_reachable_ok [OF assms(2,1)] by (simp_all add: v2_ok_def)
  have online: "db_workers d w \<noteq> None \<Longrightarrow> is_worker_online d w" for w
    using ok(1) by (auto simp: all_online_def is_worker_online_def)
  moreover have "\<forall>q \<in> set (db_queue d). qr_status q = ''processing'' \<longrightarrow> (\<exists>w. qr_worker q = Some w \<and> is_worker_online d w)"
    using ok(3) online unfolding row_ok_def by blast
  ultimately show ?thesis using ok(2,3) assms(3) by (simp add: queue_ok_def row_ok_def)
qed

theorem tables_well_formed_witness:
  "is_worker_online demo_fetched ''w1'' \<and> distinct (map qr_host (db_queue demo_fetched))"
proof -
  have sch: "new_item_status demo_schema = ''pending''" "queue_unique demo_schema" by (simp_all add: demo_schema_def)
  have "db_workers demo_fetched ''w1'' \<noteq> None"
    using demo_registered_fields(6) by (simp add: demo_fetched_def fetch_work_batch_def demo_phase1_queue)
  then show ?thesis using tables_well_formed [OF demo_fetched_reachable sch] by blast
qed

text \<open>The watchers look at running jobs only.\<close>

lemma phase1_rows_running: "x \<in> set (phase1_rows ids d) \<Longrightarrow> jr_status (the (db_jobs d (fst x))) = ''running''"
proof (induction ids)
  case (Cons i ids)
  have "phase1_rows (i # ids) d = (case db_jobs d i of None \<Rightarrow> phase1_rows ids d
     | Some j \<Rightarrow> if jr_status j = ''running'' \<and> jr_phase j = ''phase1''
                 then (i, jr_done_workers j, jr_total_workers j) # phase1_rows ids d else phase1_rows ids d)"
    by (simp add: phase1_rows_def List.map_filter_simps split: option.split)
  then show ?case using Cons by (cases "db_jobs d i") (auto split: if_split_asm)
qed (simp add: phase1_rows_def List.map_filter_simps)

lemma phase2_rows_running: "i \<in> set (phase2_rows ids d) \<Longrightarrow> jr_status (the (db_jobs d i)) = ''running''"
  by (cases "db_jobs d i") (simp_all add: phase2_rows_def)



end
