(* ===== verification/Spec2Isabelle.thy ===== *)
theory Spec2Isabelle
  imports MasterSystem Shard Fleet V2System
begin

text \<open>
  MultiScan looks for addresses that serve as proxies of a content network: AS numbers are
  resolved to prefixes, masscan finds open ports, a TLS check looks at the certificates, and a
  web service confirms the hits. The repository holds two versions over the same packages. In the
  first a master keeps everything in memory and talks to its workers over WebSockets
  (\<open>internal/master\<close>, \<open>internal/worker\<close>, \<open>internal/protocol\<close>); in the second master and
  workers share a database and a message broker (\<open>v2\<close>). \<open>masscan\<close>, \<open>resolver\<close>, \<open>scanner\<close>
  and \<open>verifier\<close> under \<open>internal\<close> serve both.

  Theories and sources.

  \<^bold>\<open>Foundations.\<close> \<open>Prelude\<close>: type names, decimal printing, handlers that may panic
  (\<open>Returns\<close>, \<open>Panics\<close>), reachability, the locales \<open>machine_invariant\<close> and
  \<open>machine_simulation\<close>, and shared lemmas. \<open>Text\<close> and \<open>Net\<close>: what the program uses of Go's
  \<open>strings\<close>, \<open>strconv\<close> and \<open>net\<close>.

  \<^bold>\<open>The master of the first version\<close> (\<open>internal/master\<close>). \<open>EventQueue\<close> is
  \<open>event_queue.go\<close>; \<open>TaskStore\<close> is \<open>task_store.go\<close>; \<open>WorkerStore\<close> is
  \<open>worker_store.go\<close>, with the connections as a map from connection numbers to the frames
  written and a flag for closed ones; \<open>Scheduler\<close> is \<open>task_scheduler.go\<close>, whose pass is the
  loop of the interface in \<open>JobSource\<close> (claim, release, queue), interpreted on the task store;
  \<open>Dashboard\<close> is \<open>dashboard.go\<close>; \<open>Handler\<close> is \<open>handler.go\<close>; \<open>MasterSystem\<close> puts them
  together: connections, ticker, offline detector, browsers and callers as one step relation.
  \<open>Shard\<close> is \<open>shard.go\<close>. \<open>Protocol\<close> is \<open>internal/protocol/protocol.go\<close>.

  \<^bold>\<open>The worker of the first version\<close> (\<open>internal/worker\<close>). \<open>ScanPhase\<close> is the TLS phase of
  \<open>runner.go\<close> with its feeder, dispatcher, checks and collector as a step relation; \<open>Runner\<close>
  the rest of \<open>runner.go\<close>; \<open>Client\<close> is \<open>client.go\<close> and \<open>test_ips.go\<close>, its loops again as
  a step relation; \<open>Fleet\<close> follows an assignment from the master to a client and back.

  \<^bold>\<open>Shared packages.\<close> \<open>Masscan\<close>, \<open>Verifier\<close>, \<open>Scanner\<close> and \<open>Resolver\<close> (with
  \<open>expand.go\<close>) are the packages of these names.

  \<^bold>\<open>The second version\<close> (\<open>v2\<close>). \<open>PgStore\<close> is \<open>internal/pg/pg.go\<close>, tables and
  statements; \<open>MasterV2\<close> is \<open>cmd/master/main.go\<close>; \<open>WorkerV2\<close> is \<open>cmd/worker/main.go\<close>;
  \<open>V2System\<close> the statements of all processes as one step relation over the tables, in any
  order and with stale arguments.

  Correspondence. A Go struct is a record with its fields (prefixed), a method a function that
  takes and returns the store, an enumeration of string constants a datatype with a printer. Maps
  are partial functions; where the code iterates over one, the order is an argument that lists
  the keys. Times are arguments. A nil dereference or a second close of a channel is \<open>Panics\<close>
  with the state so far; errors are sums or options. Addresses are lists of 8-bit words. Integers
  are unbounded, except that the host counts and loads of \<open>Shard\<close> wrap around at 64 bits. A step is one critical section: a
  handler call, a scheduler pass, a round of a loop, an SQL statement or transaction of the store's
  methods; goroutines that share nothing else between two such points are interleaved at them.

  What the lemmas show.

  The stores keep their invariants under every operation and so in every reachable state
  (\<open>ts_inv\<close>, \<open>eq_inv\<close>, \<open>hub_ok\<close>, \<open>client_inv\<close>, \<open>v2_ok\<close>, all through
  \<open>machine_invariant\<close>): the pending queue holds exactly the pending tasks besides finished ones,
  event queues are bounded, online workers are those with a connection, items in processing have a
  registered worker. \<open>store_implements_board\<close> is the refinement of the task store by a board
  of statuses, \<open>phase2_end_to_end\<close> that of the two loops of phase 2 and the watcher by the set
  of hosts that both checks accept.

  Scheduling conserves tasks and is first in, first out; a lost connection gives its tasks back;
  batches fetched from the work queue are disjoint and a cancelled job is left; the packing of networks partitions them and is
  balanced; the split among workers is exact. The batch verification and the TLS phase terminate,
  with the exact condition under which they hang. Printing and parsing are inverse for masscan's
  lines, targets and shards.

  Several theorems state what goes wrong, as the code has it: a late result of a task that was
  taken back blocks dispatching for good, a worker taken offline stays so while its connection
  lives, a read inside a line reports a wrong address, very large networks pile up in one shard, a
  busy worker's refusal makes a task fail, a dead worker of the second version blocks its job, and
  a port is stored for the wrong address.

  Parameters and bounds. The operating system, masscan, the network, the TLS handshake, the web
  services, JSON encoding, random numbers, map orders, unstable sorting, the text of IPv6
  addresses and the database's schema and choice of rows are arguments of the definitions; the
  hypotheses about them are named in each theorem (a sample is drawn below its bound, a sort is a
  sorted permutation, a fetch takes pending rows up to its limit). The loops of phase 2 may wait
  for ever, so they take a number of rounds: \<open>None\<close> means that these do not suffice. For a
  worker on its own one round more than the queue has items is enough (\<open>phase2_end_to_end\<close>),
  since every round finishes an item or a hit; with an item of a dead worker no number is
  (\<open>crashed_worker_blocks_job\<close>). All other loops are structurally recursive or have a measure;
  the goroutines of a batch are step relations with well-founded steps. The floating-point ratio
  of the rate probe is compared over the integers, which agrees at the rates it tries; the
  percentage in progress reports is a parameter.

  Not modelled: starting the processes (flags, environment, connections to database and broker,
  HTTP routing, WebSocket upgrades), log lines, the web page of the second master, the test program
  that is excluded from the build, and the programs of the first version, which the repository
  does not contain. Failing SQL statements are modelled where the code looks at the error. A
  task's \<open>running\<close> status and several methods are modelled although nothing calls them.
\<close>

end
